theory Spec2Isabelle
  imports Complex_Main "HOL-Library.Word" "HOL-Library.Signed_Division"
begin

section \<open>The memory bandwidth profiler of main.c\<close>

text \<open>
  A shallow embedding of \<^verbatim>\<open>src/main.c\<close>: the bandwidth conversion \<^verbatim>\<open>to_bw\<close>, the
  single-thread sampler \<^verbatim>\<open>timeit\<close>, the OpenMP sampler \<^verbatim>\<open>timeitp\<close> and \<^verbatim>\<open>main\<close>.

  Conventions of the embedding.
  \<^item> The target is LP64 x86-64 (the kernels are \<^verbatim>\<open>rep lodsq\<close>, SSE and AVX code):
    \<^verbatim>\<open>int\<close> is a 32-bit word, \<^verbatim>\<open>long long\<close>, \<^verbatim>\<open>unsigned long long\<close> and
    \<^verbatim>\<open>size_t\<close> are 64-bit words; signed values are read with \<open>sint\<close>.
  \<^item> A \<^verbatim>\<open>double\<close> is an exact real number or one of the three special values of
    IEEE 754. Rounding to 53 bits and the sign of zero are not part of the model.
  \<^item> What the program does to its surroundings is recorded as a trace of events:
    each \<^verbatim>\<open>memset\<close>, each clock read, each kernel invocation with the thread that
    makes it and the byte range it is handed, and each printed line.
  \<^item> The kernels of \<^verbatim>\<open>functions.h\<close> and the clock of \<^verbatim>\<open>monotonic_timer.h\<close> are
    external: a kernel is a name, and the clock is a function giving the value of
    the k-th call of \<^verbatim>\<open>monotonic_time()\<close>.
  \<^item> \<^verbatim>\<open>omp_get_max_threads()\<close> returns the same \<^verbatim>\<open>int\<close> at each call. The size of the
    team of a parallel region is the OpenMP runtime's choice, region by region: at
    least one thread and at most \<^verbatim>\<open>omp_get_max_threads()\<close>. The threads of a team are
    numbered from 0.
  \<^item> The invocations of the threads of a region are listed thread by thread, after the
    first clock read of the master thread and before its second. The model says
    nothing of how the threads interleave, nor of which invocations of the other
    threads start before the master has read the clock.
\<close>

subsection \<open>Constants\<close>

type_synonym c_int = "32 word"
type_synonym c_llong = "64 word"
type_synonym c_ullong = "64 word"
type_synonym size_t = "64 word"

definition SAMPLES :: nat where
  "SAMPLES = 5"

definition TIMES :: nat where
  "TIMES = 5"

definition BYTES_PER_GB :: c_llong where
  "BYTES_PER_GB = 1024 * 1024 * 1024"

definition MAX_SIZE :: c_llong where
  "MAX_SIZE = 1 * BYTES_PER_GB"

definition PAGE_SIZE :: c_int where
  "PAGE_SIZE = push_bit 12 1"

subsection \<open>Doubles\<close>

datatype double = Fin real | PInf | NInf | NaN

fun dsub :: "double \<Rightarrow> double \<Rightarrow> double" where
  "dsub NaN _ = NaN"
| "dsub _ NaN = NaN"
| "dsub (Fin a) (Fin b) = Fin (a - b)"
| "dsub (Fin a) PInf = NInf"
| "dsub (Fin a) NInf = PInf"
| "dsub PInf PInf = NaN"
| "dsub PInf _ = PInf"
| "dsub NInf NInf = NaN"
| "dsub NInf _ = NInf"

fun dless :: "double \<Rightarrow> double \<Rightarrow> bool" where
  "dless NaN _ = False"
| "dless _ NaN = False"
| "dless (Fin a) (Fin b) = (a < b)"
| "dless (Fin a) PInf = True"
| "dless (Fin a) NInf = False"
| "dless PInf _ = False"
| "dless NInf NInf = False"
| "dless NInf _ = True"

fun ddiv :: "double \<Rightarrow> double \<Rightarrow> double" where
  "ddiv NaN _ = NaN"
| "ddiv _ NaN = NaN"
| "ddiv (Fin a) (Fin b) =
     (if b \<noteq> 0 then Fin (a / b)
      else if 0 < a then PInf
      else if a < 0 then NInf
      else NaN)"
| "ddiv (Fin a) _ = Fin 0"
| "ddiv PInf (Fin b) = (if 0 \<le> b then PInf else NInf)"
| "ddiv NInf (Fin b) = (if 0 \<le> b then NInf else PInf)"
| "ddiv _ _ = NaN"

subsection \<open>to_bw\<close>

text \<open>
  \<^verbatim>\<open>static inline double to_bw(size_t bytes, double secs)\<close>: the byte count as a
  double, divided by \<^verbatim>\<open>(double) BYTES_PER_GB\<close>, divided by the seconds.
\<close>

definition to_bw :: "size_t \<Rightarrow> double \<Rightarrow> double" where
  "to_bw bytes secs =
     (let size_bytes = Fin (real (unat bytes));
          size_gb = ddiv size_bytes (Fin (real_of_int (sint BYTES_PER_GB)))
      in ddiv size_gb secs)"

subsection \<open>The program's state and its events\<close>

datatype kernel =
    read_memory_rep_lodsq
  | read_memory_loop
  | read_memory_sse
  | read_memory_avx
  | read_memory_prefetch_avx
  | write_memory_loop
  | write_memory_rep_stosq
  | write_memory_sse
  | write_memory_nontemporal_sse
  | write_memory_avx
  | write_memory_nontemporal_avx
  | write_memory_memset

text \<open>
  \<open>Call f tid off len\<close> is thread \<open>tid\<close> running \<^verbatim>\<open>f(&array[off], len)\<close>;
  \<open>Memset n\<close> is \<^verbatim>\<open>memset(array, 0xFF, n)\<close>; \<open>Printf f omp bw\<close> is the report line of
  kernel \<open>f\<close>, with the \<^verbatim>\<open>_omp\<close> suffix when \<open>omp\<close> holds.
\<close>

datatype event =
    Memset c_ullong
  | Nice
  | Perror
  | Header_single
  | Header_multi c_int
  | Clock
  | Call kernel nat size_t size_t
  | Printf kernel bool double

record world =
  SIZE :: c_ullong
  ticks :: nat
  trace :: "event list"

datatype error = AssertionFailed | DivideError

type_synonym 'a result = "(error \<times> world) + 'a"

text \<open>What the program is compiled with.\<close>

record build =
  with_openmp :: bool
  sse4_1 :: bool
  avx :: bool

text \<open>
  \<open>clock en k\<close> is what the k-th call of \<^verbatim>\<open>monotonic_time()\<close> returns, \<open>max_threads en\<close>
  what \<^verbatim>\<open>omp_get_max_threads()\<close> returns, \<open>num_threads en k\<close> the number of threads the
  runtime has for the parallel region that is entered when the clock has been read \<open>k\<close>
  times, and \<open>nice_fails en\<close> whether \<^verbatim>\<open>nice\<close> fails.
\<close>

record env =
  clock :: "nat \<Rightarrow> double"
  max_threads :: c_int
  num_threads :: "nat \<Rightarrow> nat"
  nice_fails :: bool

definition emit :: "event \<Rightarrow> world \<Rightarrow> world" where
  "emit e w = w\<lparr>trace := trace w @ [e]\<rparr>"

definition monotonic_time :: "env \<Rightarrow> world \<Rightarrow> double \<times> world" where
  "monotonic_time en w = (clock en (ticks w), emit Clock (w\<lparr>ticks := Suc (ticks w)\<rparr>))"

text \<open>The update of \<^verbatim>\<open>min\<close> that ends a sample in both samplers:
  \<^verbatim>\<open>if (total < min) { min = total; }\<close>.\<close>

definition keep_min :: "double \<Rightarrow> double \<Rightarrow> double" where
  "keep_min tot mn = (if dless tot mn then tot else mn)"

subsection \<open>timeit\<close>

text \<open>The inner loop, \<^verbatim>\<open>for (j = 0; j < TIMES; j++) function(array, SIZE);\<close>, with the
  number of iterations left as its argument.\<close>

primrec timeit_times :: "nat \<Rightarrow> kernel \<Rightarrow> world \<Rightarrow> world" where
  "timeit_times 0 f w = w"
| "timeit_times (Suc n) f w = timeit_times n f (emit (Call f 0 0 (SIZE w)) w)"

text \<open>The body of the outer loop: one sample, and the update of \<^verbatim>\<open>min\<close>.\<close>

definition timeit_sample :: "env \<Rightarrow> kernel \<Rightarrow> double \<times> world \<Rightarrow> double \<times> world" where
  "timeit_sample en f s =
     (let (mn, w) = s;
          (before, w1) = monotonic_time en w;
          w2 = timeit_times TIMES f w1;
          (after, w3) = monotonic_time en w2;
          total = dsub after before
      in (keep_min total mn, w3))"

primrec timeit_samples :: "nat \<Rightarrow> env \<Rightarrow> kernel \<Rightarrow> double \<times> world \<Rightarrow> double \<times> world" where
  "timeit_samples 0 en f s = s"
| "timeit_samples (Suc n) en f s = timeit_samples n en f (timeit_sample en f s)"

definition timeit :: "env \<Rightarrow> kernel \<Rightarrow> world \<Rightarrow> world" where
  "timeit en f w =
     (let (mn, w') = timeit_samples SAMPLES en f (PInf, w)
      in emit (Printf f False (to_bw (SIZE w' * of_nat TIMES) mn)) w')"

subsection \<open>timeitp\<close>

text \<open>
  The conversion of the \<^verbatim>\<open>int\<close> thread count to \<^verbatim>\<open>unsigned long long\<close> in
  \<^verbatim>\<open>SIZE % omp_get_max_threads()\<close> and \<^verbatim>\<open>SIZE / omp_get_max_threads()\<close> extends the
  sign.

  The parallel region is a bare \<^verbatim>\<open>#pragma omp parallel\<close>: no \<^verbatim>\<open>num_threads\<close> clause, and
  the code does not call \<^verbatim>\<open>omp_get_num_threads()\<close>. Its team is what the runtime forms:
  the threads it has for the region, at most \<^verbatim>\<open>omp_get_max_threads()\<close> of them and at least
  the master. With dynamic adjustment or a thread limit the team is smaller than
  \<^verbatim>\<open>omp_get_max_threads()\<close>.
\<close>

definition team_size :: "env \<Rightarrow> nat \<Rightarrow> nat" where
  "team_size en k = max 1 (min (num_threads en k) (nat (sint (max_threads en))))"

definition team :: "env \<Rightarrow> nat \<Rightarrow> nat list" where
  "team en k = [0 ..< team_size en k]"

text \<open>The range of thread \<open>tid\<close>: \<^verbatim>\<open>&array[chunk_size * omp_get_thread_num()]\<close> and
  \<^verbatim>\<open>chunk_size\<close>. The thread number, a non-negative \<^verbatim>\<open>int\<close>, is converted to
  \<^verbatim>\<open>size_t\<close>, and the product wraps at 64 bits.\<close>

definition chunk :: "size_t \<Rightarrow> nat \<Rightarrow> size_t \<times> size_t" where
  "chunk chunk_size tid = (chunk_size * of_nat tid, chunk_size)"

text \<open>What one thread does in the parallel region, the loop
  \<^verbatim>\<open>for (j = 0; j < TIMES; j++) function(&array[...], chunk_size);\<close>, and the region as a
  whole, the threads of the team one after the other.\<close>

definition thread_calls :: "kernel \<Rightarrow> size_t \<Rightarrow> nat \<Rightarrow> event list" where
  "thread_calls f chunk_size tid =
     replicate TIMES (Call f tid (fst (chunk chunk_size tid)) (snd (chunk chunk_size tid)))"

definition parallel_region :: "nat list \<Rightarrow> kernel \<Rightarrow> size_t \<Rightarrow> world \<Rightarrow> world" where
  "parallel_region tm f chunk_size w =
     w\<lparr>trace := trace w @ concat (map (thread_calls f chunk_size) tm)\<rparr>"

text \<open>
  The body of the outer loop: the \<^verbatim>\<open>assert\<close>, the chunk size, the team that the runtime
  forms as the region is entered, the invocations of its threads between the two clock
  reads of the master thread, and the update of \<^verbatim>\<open>min\<close>. The \<^verbatim>\<open>assert\<close> is
  compiled in (\<^verbatim>\<open>NDEBUG\<close> is not defined). The division by a thread count of zero, which
  C leaves undefined and x86 traps, and the failing \<^verbatim>\<open>assert\<close> end the run; the world at
  that moment is part of the error.
\<close>

definition timeitp_sample :: "env \<Rightarrow> kernel \<Rightarrow> double \<times> world \<Rightarrow> (double \<times> world) result" where
  "timeitp_sample en f s =
     (let (mn, w) = s; T = max_threads en in
      if (scast T :: c_ullong) = 0 then Inl (DivideError, w)
      else if SIZE w mod scast T \<noteq> 0 then Inl (AssertionFailed, w)
      else
        let chunk_size = SIZE w div scast T;
            tm = team en (ticks w);
            (before, w1) = monotonic_time en w;
            w2 = parallel_region tm f chunk_size w1;
            (after, w3) = monotonic_time en w2;
            total = dsub after before
        in Inr (keep_min total mn, w3))"

primrec timeitp_samples ::
  "nat \<Rightarrow> env \<Rightarrow> kernel \<Rightarrow> double \<times> world \<Rightarrow> (double \<times> world) result" where
  "timeitp_samples 0 en f s = Inr s"
| "timeitp_samples (Suc n) en f s =
     (case timeitp_sample en f s of
        Inl e \<Rightarrow> Inl e
      | Inr s' \<Rightarrow> timeitp_samples n en f s')"

definition timeitp :: "env \<Rightarrow> kernel \<Rightarrow> world \<Rightarrow> world result" where
  "timeitp en f w =
     (case timeitp_samples SAMPLES en f (PInf, w) of
        Inl e \<Rightarrow> Inl e
      | Inr (mn, w') \<Rightarrow> Inr (emit (Printf f True (to_bw (SIZE w' * of_nat TIMES) mn)) w'))"

subsection \<open>main\<close>

text \<open>The kernels that \<^verbatim>\<open>main\<close> times, in its order, under the conditional compilation
  of the SSE 4.1 and AVX kernels. Both passes time the same list.\<close>

definition catalogue :: "build \<Rightarrow> kernel list" where
  "catalogue b =
     [read_memory_rep_lodsq, read_memory_loop]
     @ (if sse4_1 b then [read_memory_sse] else [])
     @ (if avx b then [read_memory_avx, read_memory_prefetch_avx] else [])
     @ [write_memory_loop, write_memory_rep_stosq]
     @ (if sse4_1 b then [write_memory_sse, write_memory_nontemporal_sse] else [])
     @ (if avx b then [write_memory_avx, write_memory_nontemporal_avx] else [])
     @ [write_memory_memset]"

text \<open>The sequence of \<^verbatim>\<open>timefun(f)\<close> statements, and the sequence of \<^verbatim>\<open>timefunp(f)\<close>
  statements, which stops at the first failure.\<close>

primrec timefun_all :: "env \<Rightarrow> kernel list \<Rightarrow> world \<Rightarrow> world" where
  "timefun_all en [] w = w"
| "timefun_all en (f # fs) w = timefun_all en fs (timeit en f w)"

primrec timefunp_all :: "env \<Rightarrow> kernel list \<Rightarrow> world \<Rightarrow> world result" where
  "timefunp_all en [] w = Inr w"
| "timefunp_all en (f # fs) w =
     (case timeitp en f w of
        Inl e \<Rightarrow> Inl e
      | Inr w' \<Rightarrow> timefunp_all en fs w')"

text \<open>Division of \<^verbatim>\<open>long long\<close> values: C truncates towards zero.\<close>

definition sdiv_llong :: "c_llong \<Rightarrow> c_llong \<Rightarrow> c_llong" where
  "sdiv_llong a b = word_of_int (sint a sdiv sint b)"

text \<open>Lines 145 and 146: the Active Size of the multi-core pass. The thread count and
  \<^verbatim>\<open>PAGE_SIZE\<close> are converted from \<^verbatim>\<open>int\<close>; the two divisions are signed, the two
  multiplications unsigned.\<close>

definition omp_size :: "c_int \<Rightarrow> c_ullong" where
  "omp_size T =
     (let npages_per_thread = sdiv_llong (sdiv_llong MAX_SIZE (scast T)) (scast PAGE_SIZE)
      in scast PAGE_SIZE * npages_per_thread * scast T)"

text \<open>
  \<^verbatim>\<open>main\<close> in three parts: the state at its entry, with \<^verbatim>\<open>SIZE\<close> as initialised;
  lines 111 to 141, the single-core pass (\<^verbatim>\<open>memset\<close>, \<^verbatim>\<open>nice\<close> with its warning, the
  header, the kernels); lines 144 to 170, compiled under \<^verbatim>\<open>WITH_OPENMP\<close>, the multi-core
  pass (the header, the new \<^verbatim>\<open>SIZE\<close>, \<^verbatim>\<open>memset\<close>, the kernels). The division of line 145
  by a thread count of zero ends the run.
\<close>

definition initial_world :: world where
  "initial_world = \<lparr>SIZE = MAX_SIZE, ticks = 0, trace = []\<rparr>"

definition single_core :: "build \<Rightarrow> env \<Rightarrow> world \<Rightarrow> world" where
  "single_core b en w =
     (let w1 = emit (Memset (SIZE w)) w;
          w2 = emit Nice w1;
          w3 = (if nice_fails en then emit Perror w2 else w2);
          w4 = emit Header_single w3
      in timefun_all en (catalogue b) w4)"

definition multi_core :: "build \<Rightarrow> env \<Rightarrow> world \<Rightarrow> world result" where
  "multi_core b en w =
     (let T = max_threads en;
          w1 = emit (Header_multi T) w
      in if sint T = 0 then Inl (DivideError, w1)
         else
           let w2 = w1\<lparr>SIZE := omp_size T\<rparr>;
               w3 = emit (Memset (SIZE w2)) w2
           in timefunp_all en (catalogue b) w3)"

definition main :: "build \<Rightarrow> env \<Rightarrow> world result" where
  "main b en =
     (let w = single_core b en initial_world
      in if with_openmp b then multi_core b en w else Inr w)"

subsection \<open>Notions used to state the properties\<close>

text \<open>The elapsed time of trial \<open>i\<close> of a sampler that starts when the clock has been
  read \<open>k\<close> times: each trial reads the clock twice.\<close>

definition elapsed :: "env \<Rightarrow> nat \<Rightarrow> nat \<Rightarrow> double" where
  "elapsed en k i = dsub (clock en (k + 2 * i + 1)) (clock en (k + 2 * i))"

text \<open>A clock whose first ten readings give the elapsed times 0.9, 0.5, 0.7, 0.6 and 0.8,
  and an environment with that clock and four hardware threads, all four in every team.\<close>

definition example_clock :: "nat \<Rightarrow> double" where
  "example_clock k =
     (if k < 10 then Fin ([0, 0.9, 1, 1.5, 2, 2.7, 3, 3.6, 4, 4.8] ! k) else NaN)"

definition example_env :: env where
  "example_env =
     \<lparr>clock = example_clock, max_threads = 4, num_threads = (\<lambda>k. 4), nice_fails = False\<rparr>"

text \<open>The bytes of \<^verbatim>\<open>array\<close> in the range a kernel is handed, as indices: an offset
  and a length give a half-open interval.\<close>

definition range_bytes :: "size_t \<times> size_t \<Rightarrow> nat set" where
  "range_bytes r = {unat (fst r) ..< unat (fst r) + unat (snd r)}"

text \<open>The events of a sampler: clock reads, report lines, and kernel invocations on a
  range that ends within the \<open>MAX_SIZE\<close> bytes of \<^verbatim>\<open>array\<close>.\<close>

definition sampler_event :: "event \<Rightarrow> bool" where
  "sampler_event e =
     (case e of
        Clock \<Rightarrow> True
      | Call f tid off len \<Rightarrow> unat off + unat len \<le> unat MAX_SIZE
      | Printf f omp bw \<Rightarrow> True
      | _ \<Rightarrow> False)"

text \<open>A build with the multi-core pass and every kernel.\<close>

definition omp_build :: build where
  "omp_build = \<lparr>with_openmp = True, sse4_1 = True, avx = True\<rparr>"

text \<open>An environment with three hardware threads, which do not divide 1 GiB.\<close>

definition three_threads_env :: env where
  "three_threads_env =
     \<lparr>clock = example_clock, max_threads = 3, num_threads = (\<lambda>k. 3), nice_fails = False\<rparr>"

text \<open>The world a run ends in, whether it completes or aborts.\<close>

definition final_world :: "world result \<Rightarrow> world" where
  "final_world r = (case r of Inl (e, w) \<Rightarrow> w | Inr w \<Rightarrow> w)"

text \<open>An initialisation of the buffer.\<close>

definition is_Memset :: "event \<Rightarrow> bool" where
  "is_Memset e = (case e of Memset n \<Rightarrow> True | _ \<Rightarrow> False)"

text \<open>An event whose byte range, if it is a kernel invocation, lies within the
  \<open>MAX_SIZE\<close> bytes of \<^verbatim>\<open>array\<close>.\<close>

definition in_buffer :: "event \<Rightarrow> bool" where
  "in_buffer e =
     (case e of Call f tid off len \<Rightarrow> unat off + unat len \<le> unat MAX_SIZE | _ \<Rightarrow> True)"

text \<open>The aggregate bytes moved by the kernel invocations of a list of events: the sum of
  the lengths handed to the kernels, over all threads.\<close>

definition bytes_moved :: "event list \<Rightarrow> nat" where
  "bytes_moved E = sum_list (map (\<lambda>e. case e of Call f tid off len \<Rightarrow> unat len | _ \<Rightarrow> 0) E)"

text \<open>The events of the sample of \<^verbatim>\<open>timeitp\<close> that starts when the clock has been read \<open>k\<close>
  times, for a kernel and a chunk size: the invocations of the team between two clock
  reads.\<close>

definition sample_events :: "env \<Rightarrow> kernel \<Rightarrow> size_t \<Rightarrow> nat \<Rightarrow> event list" where
  "sample_events en f c k = Clock # concat (map (thread_calls f c) (team en k)) @ [Clock]"

text \<open>The bytes of \<^verbatim>\<open>array\<close> that the kernel invocations of a list of events are handed.\<close>

definition handed :: "event list \<Rightarrow> nat set" where
  "handed E =
     (\<Union>e \<in> set E. case e of Call f tid off len \<Rightarrow> range_bytes (off, len) | _ \<Rightarrow> {})"

text \<open>An environment where \<^verbatim>\<open>omp_get_max_threads()\<close> is 4 and the runtime forms teams of two
  threads, as it does under a thread limit of two.\<close>

definition short_team_env :: env where
  "short_team_env =
     \<lparr>clock = example_clock, max_threads = 4, num_threads = (\<lambda>k. 2), nice_fails = False\<rparr>"

section \<open>Machine arithmetic\<close>

lemma sint_T_bound: "sint (T :: c_int) < 2 ^ 31"
  using sint_lt [of T] by simp

lemma uint_scast_T:
  assumes "1 \<le> sint (T :: c_int)"
  shows "uint (scast T :: c_ullong) = sint T"
proof (rule word_of_int_inverse)
  show "word_of_int (sint T) = (scast T :: c_ullong)" by simp
  show "0 \<le> sint T" using assms by simp
  show "sint T < 2 ^ LENGTH(64)" using sint_T_bound [of T] by simp
qed

lemma unat_scast_T:
  assumes "1 \<le> sint (T :: c_int)"
  shows "unat (scast T :: c_ullong) = nat (sint T)"
proof -
  have "nat (uint (scast T :: c_ullong)) = nat (sint T)"
    by (simp only: uint_scast_T [OF assms])
  then show ?thesis by simp
qed

lemma scast_T_nonzero:
  assumes "1 \<le> sint (T :: c_int)"
  shows "(scast T :: c_ullong) \<noteq> 0"
proof
  assume "(scast T :: c_ullong) = 0"
  then have "unat (scast T :: c_ullong) = 0" by simp
  then show False using unat_scast_T [OF assms] assms by simp
qed

lemma sint_scast_T: "sint (scast (T :: c_int) :: c_llong) = sint T"
  by (rule sint_up_scast) (simp add: is_up)

lemma sint_MAX_SIZE: "sint MAX_SIZE = 2 ^ 30"
  by (simp add: MAX_SIZE_def BYTES_PER_GB_def)

lemma unat_MAX_SIZE: "unat MAX_SIZE = 2 ^ 30"
  by (simp add: MAX_SIZE_def BYTES_PER_GB_def)

lemma sint_PAGE_SIZE: "sint (scast PAGE_SIZE :: c_llong) = 4096"
  by (simp add: PAGE_SIZE_def)

lemma unat_PAGE_SIZE: "unat (scast PAGE_SIZE :: c_ullong) = 4096"
  by (simp add: PAGE_SIZE_def)

lemma sdiv_nonneg: "0 \<le> a \<Longrightarrow> 0 \<le> b \<Longrightarrow> (a :: int) sdiv b = a div b"
  by (simp add: signed_divide_int_def sgn_if)

lemma uint_small: "0 \<le> k \<Longrightarrow> k < 2 ^ 63 \<Longrightarrow> uint (word_of_int k :: 64 word) = k"
  by (rule word_of_int_inverse [OF refl]) simp_all

lemma sint_small: "0 \<le> k \<Longrightarrow> k < 2 ^ 63 \<Longrightarrow> sint (word_of_int k :: 64 word) = k"
  by (simp add: sint_sbintrunc' signed_take_bit_int_eq_self)

section \<open>The bandwidth conversion\<close>

text \<open>
  C5. Given \<open>4 * BYTES_PER_GB\<close> bytes and an elapsed time of 2.0 seconds, \<^verbatim>\<open>to_bw\<close>
  returns exactly 2 GiB/s, in units of \<open>1024 ^ 3\<close> bytes.
\<close>

theorem to_bw_four_gib_two_seconds:
  "to_bw (4 * BYTES_PER_GB) (Fin 2) = Fin 2 \<and> sint BYTES_PER_GB = 1024 ^ 3"
  by (simp add: to_bw_def BYTES_PER_GB_def)

section \<open>The single-thread sampler\<close>

lemma timeit_times_eq:
  "timeit_times n f w = w\<lparr>trace := trace w @ replicate n (Call f 0 0 (SIZE w))\<rparr>"
proof (induction n arbitrary: w)
  case 0
  show ?case by simp
next
  case (Suc n)
  show ?case
    by (simp add: Suc emit_def replicate_append_same)
qed

lemma timeit_sample_eq:
  "timeit_sample en f (mn, w) =
     (keep_min (elapsed en (ticks w) 0) mn,
      w\<lparr>ticks := ticks w + 2,
        trace := trace w @ Clock # replicate TIMES (Call f 0 0 (SIZE w)) @ [Clock]\<rparr>)"
  by (simp add: timeit_sample_def monotonic_time_def emit_def timeit_times_eq elapsed_def)

lemma elapsed_shift: "elapsed en (Suc (Suc k)) i = elapsed en k (Suc i)"
  by (simp add: elapsed_def)

lemma upt_0_Suc_map: "[0..<Suc n] = 0 # map Suc [0..<n]"
  by (simp only: upt_conv_Cons [of 0 "Suc n"] map_Suc_upt zero_less_Suc if_True)

lemma timeit_samples_eq:
  "timeit_samples n en f (mn, w) =
     (foldl (\<lambda>m t. keep_min t m) mn (map (elapsed en (ticks w)) [0..<n]),
      w\<lparr>ticks := ticks w + 2 * n,
        trace := trace w
          @ concat (replicate n (Clock # replicate TIMES (Call f 0 0 (SIZE w)) @ [Clock]))\<rparr>)"
proof (induction n arbitrary: mn w)
  case 0
  show ?case by simp
next
  case (Suc n)
  have m: "map (elapsed en (ticks w)) [0..<Suc n]
    = elapsed en (ticks w) 0 # map (elapsed en (ticks w + 2)) [0..<n]"
    unfolding upt_0_Suc_map by (simp add: elapsed_shift comp_def)
  show ?case
    unfolding m by (simp add: timeit_sample_eq Suc.IH)
qed

lemma keep_min_Fin: "keep_min (Fin r) (Fin m) = Fin (min r m)"
  by (simp add: keep_min_def min_def)

lemma keep_min_PInf: "keep_min (Fin r) PInf = Fin r"
  by (simp add: keep_min_def)

lemma foldl_keep_min_Fin:
  "foldl (\<lambda>m t. keep_min t m) (Fin m) (map Fin rs) = Fin (Min (insert m (set rs)))"
proof (induction rs arbitrary: m)
  case Nil
  show ?case by simp
next
  case (Cons r rs)
  have "Min (insert (min r m) (set rs)) = Min (insert m (insert r (set rs)))"
    by (cases "set rs = {}") (auto simp: min_def Min_insert)
  then show ?case
    by (simp add: keep_min_Fin Cons.IH)
qed

lemma foldl_keep_min_PInf:
  "rs \<noteq> [] \<Longrightarrow> foldl (\<lambda>m t. keep_min t m) PInf (map Fin rs) = Fin (Min (set rs))"
  by (cases rs) (simp_all add: keep_min_PInf foldl_keep_min_Fin)

lemma to_bw_Fin:
  "secs \<noteq> 0 \<Longrightarrow> to_bw bytes (Fin secs) = Fin (real (unat bytes) / 1024 ^ 3 / secs)"
  by (simp add: to_bw_def BYTES_PER_GB_def)

lemma unat_SIZE_TIMES:
  assumes "unat (S :: c_ullong) \<le> unat MAX_SIZE"
  shows "unat (S * of_nat TIMES) = unat S * TIMES"
proof -
  have "unat S * unat (5 :: c_ullong) < 2 ^ LENGTH(64)"
    using assms by (simp add: unat_MAX_SIZE)
  then have "unat (S * 5) = unat S * unat (5 :: c_ullong)"
    by (simp only: unat_mult_lem)
  then show ?thesis by (simp add: TIMES_def)
qed

lemma timeit_eq:
  "timeit en f w =
     w\<lparr>ticks := ticks w + 2 * SAMPLES,
       trace := trace w
         @ concat (replicate SAMPLES (Clock # replicate TIMES (Call f 0 0 (SIZE w)) @ [Clock]))
         @ [Printf f False (to_bw (SIZE w * of_nat TIMES)
              (foldl (\<lambda>m t. keep_min t m) PInf (map (elapsed en (ticks w)) [0..<SAMPLES])))]\<rparr>"
  by (simp add: timeit_def timeit_samples_eq emit_def)

lemma elapsed_Fin:
  assumes "\<forall>i<n. clock en (k + 2 * i) = Fin (before i) \<and> clock en (k + 2 * i + 1) = Fin (after i)"
  shows "map (elapsed en k) [0..<n] = map Fin (map (\<lambda>i. after i - before i) [0..<n])"
  using assms by (simp add: elapsed_def)

lemma min_elapsed_Fin:
  assumes "\<forall>i<n. clock en (k + 2 * i) = Fin (before i) \<and> clock en (k + 2 * i + 1) = Fin (after i)"
    and "0 < n"
  shows "foldl (\<lambda>m t. keep_min t m) PInf (map (elapsed en k) [0..<n])
    = Fin (Min ((\<lambda>i. after i - before i) ` {..<n}))"
proof -
  have "map (\<lambda>i. after i - before i) [0..<n] \<noteq> []"
    using \<open>0 < n\<close> by simp
  then have "foldl (\<lambda>m t. keep_min t m) PInf (map Fin (map (\<lambda>i. after i - before i) [0..<n]))
    = Fin (Min (set (map (\<lambda>i. after i - before i) [0..<n])))"
    by (rule foldl_keep_min_PInf)
  moreover have "set (map (\<lambda>i. after i - before i) [0..<n]) = (\<lambda>i. after i - before i) ` {..<n}"
    by (simp add: atLeast0LessThan)
  ultimately show ?thesis
    by (simp only: elapsed_Fin [OF assms(1)])
qed

lemma all_less_5: "(\<forall>i<(5::nat). P i) = (P 0 \<and> P 1 \<and> P 2 \<and> P 3 \<and> P 4)"
proof -
  have "\<And>i::nat. i < 5 \<longleftrightarrow> i = 0 \<or> i = 1 \<or> i = 2 \<or> i = 3 \<or> i = 4"
    by arith
  then show ?thesis by auto
qed

lemma lessThan_5: "{..<(5::nat)} = {0, 1, 2, 3, 4}"
  by auto

text \<open>
  C1. When the clock returns finite values, \<^verbatim>\<open>timeit\<close> runs \<open>SAMPLES\<close> trials, each
  one clock read, \<open>TIMES\<close> invocations of the kernel on the range \<open>[0, SIZE)\<close> and one
  clock read; it reports \<^verbatim>\<open>to_bw\<close> of \<open>SIZE * TIMES\<close> bytes and the minimum of the
  differences \<open>after - before\<close>, which for a positive minimum and an Active Size within
  the buffer is that byte count divided by \<open>1024 ^ 3\<close> and by the minimum. The reduction
  of the code selects 0.5 from 0.9, 0.5, 0.7, 0.6, 0.8.
\<close>

theorem timeit_protocol:
  assumes "\<forall>i<SAMPLES. clock en (ticks w + 2 * i) = Fin (before i)
              \<and> clock en (ticks w + 2 * i + 1) = Fin (after i)"
  shows "timeit en f w =
     w\<lparr>ticks := ticks w + 2 * SAMPLES,
       trace := trace w
         @ concat (replicate SAMPLES (Clock # replicate TIMES (Call f 0 0 (SIZE w)) @ [Clock]))
         @ [Printf f False (to_bw (SIZE w * of_nat TIMES)
              (Fin (Min ((\<lambda>i. after i - before i) ` {..<SAMPLES}))))]\<rparr>
     \<and> (0 < Min ((\<lambda>i. after i - before i) ` {..<SAMPLES}) \<and> unat (SIZE w) \<le> unat MAX_SIZE \<longrightarrow>
          to_bw (SIZE w * of_nat TIMES) (Fin (Min ((\<lambda>i. after i - before i) ` {..<SAMPLES})))
          = Fin (real (unat (SIZE w) * TIMES) / 1024 ^ 3
                 / Min ((\<lambda>i. after i - before i) ` {..<SAMPLES})))
     \<and> foldl (\<lambda>m t. keep_min t m) PInf (map Fin [0.9, 0.5, 0.7, 0.6, 0.8]) = Fin 0.5"
proof (intro conjI impI)
  have "0 < SAMPLES" by (simp add: SAMPLES_def)
  from min_elapsed_Fin [OF assms this]
  show "timeit en f w =
     w\<lparr>ticks := ticks w + 2 * SAMPLES,
       trace := trace w
         @ concat (replicate SAMPLES (Clock # replicate TIMES (Call f 0 0 (SIZE w)) @ [Clock]))
         @ [Printf f False (to_bw (SIZE w * of_nat TIMES)
              (Fin (Min ((\<lambda>i. after i - before i) ` {..<SAMPLES}))))]\<rparr>"
    by (simp only: timeit_eq)
next
  assume a: "0 < Min ((\<lambda>i. after i - before i) ` {..<SAMPLES}) \<and> unat (SIZE w) \<le> unat MAX_SIZE"
  then show "to_bw (SIZE w * of_nat TIMES) (Fin (Min ((\<lambda>i. after i - before i) ` {..<SAMPLES})))
          = Fin (real (unat (SIZE w) * TIMES) / 1024 ^ 3
                 / Min ((\<lambda>i. after i - before i) ` {..<SAMPLES}))"
    by (simp add: to_bw_Fin unat_SIZE_TIMES)
next
  show "foldl (\<lambda>m t. keep_min t m) PInf (map Fin [0.9, 0.5, 0.7, 0.6, 0.8]) = Fin 0.5"
    by (simp add: keep_min_def)
qed


theorem timeit_protocol_witness:
  "map (clock example_env) [0..<10]
     = map Fin [0, 0.9, 1, 1.5, 2, 2.7, 3, 3.6, 4, 4.8]
   \<and> timeit example_env read_memory_loop initial_world =
       \<lparr>SIZE = MAX_SIZE, ticks = 10,
        trace = concat (replicate 5 (Clock # replicate 5 (Call read_memory_loop 0 0 MAX_SIZE) @ [Clock]))
          @ [Printf read_memory_loop False (to_bw (5 * BYTES_PER_GB) (Fin 0.5))]\<rparr>"
proof -
  have h: "\<forall>i<SAMPLES. clock example_env (ticks initial_world + 2 * i) = Fin (real i)
        \<and> clock example_env (ticks initial_world + 2 * i + 1) = Fin ([0.9, 1.5, 2.7, 3.6, 4.8] ! i)"
    by (simp add: SAMPLES_def all_less_5 example_env_def example_clock_def initial_world_def)
  have m: "Min ((\<lambda>i. [0.9, 1.5, 2.7, 3.6, 4.8] ! i - real i) ` {..<SAMPLES}) = 0.5"
    by (simp add: SAMPLES_def lessThan_5)
  have t: "timeit example_env read_memory_loop initial_world =
     initial_world\<lparr>ticks := ticks initial_world + 2 * SAMPLES,
       trace := trace initial_world
         @ concat (replicate SAMPLES
             (Clock # replicate TIMES (Call read_memory_loop 0 0 (SIZE initial_world)) @ [Clock]))
         @ [Printf read_memory_loop False (to_bw (SIZE initial_world * of_nat TIMES) (Fin 0.5))]\<rparr>"
    using timeit_protocol [OF h, THEN conjunct1, of read_memory_loop] by (simp only: m)
  have c: "map (clock example_env) [0..<10]
     = map Fin [0, 0.9, 1, 1.5, 2, 2.7, 3, 3.6, 4, 4.8]"
    by (simp add: upt_rec example_env_def example_clock_def)
  show ?thesis
    using c t
    by (simp add: SAMPLES_def TIMES_def initial_world_def MAX_SIZE_def mult.commute [of BYTES_PER_GB 5])
qed

section \<open>The work partition of timeitp\<close>

lemma unat_chunk_size:
  assumes "1 \<le> sint (T :: c_int)"
  shows "unat ((S :: c_ullong) div scast T) = unat S div nat (sint T)"
  by (simp only: unat_div unat_scast_T [OF assms])

lemma unat_tid:
  assumes "tid < nat (sint (T :: c_int))"
  shows "unat (of_nat tid :: size_t) = tid"
proof -
  have "tid < 2 ^ 31"
    using assms sint_T_bound [of T] by simp
  then have "tid < 2 ^ LENGTH(64)" by simp
  then show ?thesis by (simp add: unat_of_nat)
qed

lemma unat_chunk_off:
  assumes "1 \<le> sint (T :: c_int)" and "tid < nat (sint T)"
  shows "unat ((S :: c_ullong) div scast T * of_nat tid) = unat S div nat (sint T) * tid"
proof -
  let ?t = "nat (sint T)"
  have "unat S div ?t * tid \<le> unat S div ?t * ?t"
    using assms(2) by simp
  also have "\<dots> \<le> unat S" by simp
  also have "\<dots> < 2 ^ LENGTH(64)" by (rule unsigned_less)
  finally have "unat (S div scast T) * unat (of_nat tid :: size_t) < 2 ^ LENGTH(64)"
    by (simp only: unat_chunk_size [OF assms(1)] unat_tid [OF assms(2)])
  then have "unat (S div scast T * of_nat tid) = unat (S div scast T) * unat (of_nat tid :: size_t)"
    by (simp only: unat_mult_lem)
  then show ?thesis
    by (simp only: unat_chunk_size [OF assms(1)] unat_tid [OF assms(2)])
qed

lemma range_bytes_chunk:
  assumes "1 \<le> sint (T :: c_int)" and "i < nat (sint T)"
  shows "range_bytes (chunk (S div scast T) i)
    = {i * (unat S div nat (sint T)) ..< (i + 1) * (unat S div nat (sint T))}"
proof -
  have "range_bytes (chunk (S div scast T) i)
    = {unat S div nat (sint T) * i ..< unat S div nat (sint T) * i + unat S div nat (sint T)}"
    by (simp only: range_bytes_def chunk_def fst_conv snd_conv unat_chunk_off [OF assms]
        unat_chunk_size [OF assms(1)])
  also have "\<dots> = {i * (unat S div nat (sint T)) ..< (i + 1) * (unat S div nat (sint T))}"
    by (simp add: ac_simps)
  finally show ?thesis .
qed

lemma blocks_disjoint:
  fixes c :: nat
  assumes "i \<noteq> j"
  shows "{i * c ..< (i + 1) * c} \<inter> {j * c ..< (j + 1) * c} = {}"
proof -
  have d: "{a * c ..< (a + 1) * c} \<inter> {b * c ..< (b + 1) * c} = {}" if "a < b" for a b :: nat
  proof -
    from that have "a + 1 \<le> b" by simp
    then have "(a + 1) * c \<le> b * c" by (rule mult_le_mono1)
    then show ?thesis by auto
  qed
  from assms have "i < j \<or> j < i" by arith
  then show ?thesis using d [of i j] d [of j i] by auto
qed

lemma blocks_cover:
  fixes c :: nat
  shows "(\<Union>i<t. {i * c ..< (i + 1) * c}) = {0 ..< t * c}"
proof (induction t)
  case 0
  show ?case by simp
next
  case (Suc t)
  have "(\<Union>i<Suc t. {i * c ..< (i + 1) * c}) = {0 ..< t * c} \<union> {t * c ..< (t + 1) * c}"
    by (simp only: lessThan_Suc UN_insert Suc.IH Un_commute)
  also have "\<dots> = {0 ..< Suc t * c}" by auto
  finally show ?case .
qed

section \<open>The Active Size of the multi-core pass\<close>

lemma npages_per_thread_eq:
  assumes "1 \<le> sint (T :: c_int)"
  shows "sdiv_llong (sdiv_llong MAX_SIZE (scast T)) (scast PAGE_SIZE)
    = word_of_int (2 ^ 30 div sint T div 4096)"
proof -
  let ?a = "2 ^ 30 div sint T"
  have t: "sint T = int (nat (sint T))" using assms by simp
  have an: "?a = int (2 ^ 30 div nat (sint T))"
    by (subst t) (simp add: zdiv_int)
  then have a0: "0 \<le> ?a" by simp
  have "(2 ^ 30 div nat (sint T) :: nat) \<le> 2 ^ 30" by (rule div_le_dividend)
  also have "(2 ^ 30 :: nat) < 2 ^ 63" by simp
  finally have "int (2 ^ 30 div nat (sint T)) < int (2 ^ 63)" by (simp only: of_nat_less_iff)
  then have a1: "?a < 2 ^ 63" unfolding an by simp
  have "sdiv_llong MAX_SIZE (scast T) = word_of_int (2 ^ 30 sdiv sint T)"
    by (simp only: sdiv_llong_def sint_MAX_SIZE sint_scast_T)
  also have "\<dots> = word_of_int ?a"
  proof -
    have "(2 ^ 30 :: int) sdiv sint T = ?a"
      by (rule sdiv_nonneg) (use assms in simp_all)
    then show ?thesis by (simp only:)
  qed
  finally have d: "sdiv_llong MAX_SIZE (scast T) = word_of_int ?a" .
  have "sdiv_llong (word_of_int ?a) (scast PAGE_SIZE) = word_of_int (?a sdiv 4096)"
    by (simp only: sdiv_llong_def sint_small [OF a0 a1] sint_PAGE_SIZE)
  also have "\<dots> = word_of_int (?a div 4096)"
  proof -
    have "?a sdiv 4096 = ?a div 4096"
      by (rule sdiv_nonneg) (use a0 in simp_all)
    then show ?thesis by (simp only:)
  qed
  finally show ?thesis by (simp only: d)
qed

lemma unat_omp_size:
  assumes "1 \<le> sint (T :: c_int)"
  shows "unat (omp_size T) = 4096 * (2 ^ 30 div nat (sint T) div 4096) * nat (sint T)"
proof -
  let ?t = "nat (sint T)"
  let ?q = "2 ^ 30 div sint T div 4096"
  let ?n = "2 ^ 30 div ?t div 4096"
  have t: "sint T = int ?t" using assms by simp
  have "?q = int ?n"
    by (subst t) (simp add: zdiv_int)
  then have qn: "nat ?q = ?n" by simp
  have q0: "0 \<le> ?q" using assms by (simp add: pos_imp_zdiv_nonneg_iff)
  have n_le: "4096 * ?n * ?t \<le> 2 ^ 30"
  proof -
    have "4096 * ?n \<le> 2 ^ 30 div ?t" by simp
    then have "4096 * ?n * ?t \<le> 2 ^ 30 div ?t * ?t" by (rule mult_le_mono1)
    also have "\<dots> \<le> 2 ^ 30" by simp
    finally show ?thesis .
  qed
  have "?n \<le> 2 ^ 30" by (simp add: div_le_dividend le_trans [OF div_le_dividend])
  then have "?q < 2 ^ 63" using \<open>?q = int ?n\<close> by simp
  then have "uint (word_of_int ?q :: c_ullong) = ?q"
    using q0 by (simp only: uint_small)
  then have "nat (uint (word_of_int ?q :: c_ullong)) = ?n"
    by (simp only: qn)
  then have un: "unat (word_of_int ?q :: c_ullong) = ?n" by simp
  have t1: "1 \<le> ?t" using assms by linarith
  have "4096 * ?n * 1 \<le> 4096 * ?n * ?t" by (rule mult_le_mono2 [OF t1])
  then have "4096 * ?n \<le> 4096 * ?n * ?t" by simp
  then have "4096 * ?n \<le> 2 ^ 30" using n_le by (rule le_trans)
  then have "4096 * ?n < 2 ^ LENGTH(64)" by simp
  then have "unat (scast PAGE_SIZE :: c_ullong) * unat (word_of_int ?q :: c_ullong) < 2 ^ LENGTH(64)"
    by (simp only: unat_PAGE_SIZE un)
  then have "unat (scast PAGE_SIZE * (word_of_int ?q :: c_ullong))
      = unat (scast PAGE_SIZE :: c_ullong) * unat (word_of_int ?q :: c_ullong)"
    by (simp only: unat_mult_lem)
  then have u1: "unat (scast PAGE_SIZE * (word_of_int ?q :: c_ullong)) = 4096 * ?n"
    by (simp only: unat_PAGE_SIZE un)
  have "4096 * ?n * ?t < 2 ^ LENGTH(64)"
    using n_le by simp
  then have "unat (scast PAGE_SIZE * (word_of_int ?q :: c_ullong)) * unat (scast T :: c_ullong)
      < 2 ^ LENGTH(64)"
    by (simp only: u1 unat_scast_T [OF assms])
  then have "unat (scast PAGE_SIZE * (word_of_int ?q :: c_ullong) * scast T)
      = unat (scast PAGE_SIZE * (word_of_int ?q :: c_ullong)) * unat (scast T :: c_ullong)"
    by (simp only: unat_mult_lem)
  then have "unat (scast PAGE_SIZE * (word_of_int ?q :: c_ullong) * scast T) = 4096 * ?n * ?t"
    by (simp only: u1 unat_scast_T [OF assms])
  then show ?thesis
    by (simp only: omp_size_def Let_def npages_per_thread_eq [OF assms])
qed

lemma omp_size_mod_T:
  assumes "1 \<le> sint (T :: c_int)"
  shows "omp_size T mod scast T = 0"
proof -
  have "unat (omp_size T mod scast T) = unat (omp_size T) mod nat (sint T)"
    by (simp only: unat_mod unat_scast_T [OF assms])
  also have "\<dots> = 0"
    by (simp only: unat_omp_size [OF assms] mod_mult_self2_is_0)
  finally show ?thesis by (simp only: unat_eq_zero)
qed

lemma omp_size_le:
  assumes "1 \<le> sint (T :: c_int)"
  shows "unat (omp_size T) \<le> unat MAX_SIZE"
proof -
  let ?t = "nat (sint T)"
  have "4096 * (2 ^ 30 div ?t div 4096) \<le> 2 ^ 30 div ?t" by simp
  then have "4096 * (2 ^ 30 div ?t div 4096) * ?t \<le> 2 ^ 30 div ?t * ?t" by (rule mult_le_mono1)
  also have "\<dots> \<le> 2 ^ 30" by simp
  finally show ?thesis by (simp only: unat_omp_size [OF assms] unat_MAX_SIZE)
qed

lemma unat_omp_chunk_size:
  assumes "1 \<le> sint (T :: c_int)"
  shows "unat (omp_size T div scast T) = 4096 * (2 ^ 30 div nat (sint T) div 4096)"
proof -
  have "0 < nat (sint T)" using assms by simp
  then show ?thesis
    by (simp only: unat_chunk_size [OF assms] unat_omp_size [OF assms] nonzero_mult_div_cancel_right)
qed

section \<open>The multi-core sampler\<close>

lemma timeitp_sample_eq:
  assumes "1 \<le> sint (max_threads en)" and "SIZE w mod scast (max_threads en) = 0"
  shows "timeitp_sample en f (mn, w) =
     Inr (keep_min (elapsed en (ticks w) 0) mn,
      w\<lparr>ticks := ticks w + 2,
        trace := trace w
          @ sample_events en f (SIZE w div scast (max_threads en)) (ticks w)\<rparr>)"
  using scast_T_nonzero [OF assms(1)] assms(2)
  by (simp add: timeitp_sample_def Let_def monotonic_time_def emit_def parallel_region_def
      elapsed_def sample_events_def)

lemma timeitp_sample_abort:
  assumes "1 \<le> sint (max_threads en)" and "SIZE w mod scast (max_threads en) \<noteq> 0"
  shows "timeitp_sample en f (mn, w) = Inl (AssertionFailed, w)"
  using scast_T_nonzero [OF assms(1)] assms(2)
  by (simp add: timeitp_sample_def)

lemma timeitp_samples_eq:
  assumes "1 \<le> sint (max_threads en)" and "SIZE w mod scast (max_threads en) = 0"
  shows "timeitp_samples n en f (mn, w) =
     Inr (foldl (\<lambda>m t. keep_min t m) mn (map (elapsed en (ticks w)) [0..<n]),
      w\<lparr>ticks := ticks w + 2 * n,
        trace := trace w @ concat (map (\<lambda>i.
          sample_events en f (SIZE w div scast (max_threads en)) (ticks w + 2 * i)) [0..<n])\<rparr>)"
  using assms(2)
proof (induction n arbitrary: mn w)
  case 0
  show ?case by simp
next
  case (Suc n)
  let ?c = "SIZE w div scast (max_threads en)"
  let ?w = "w\<lparr>ticks := ticks w + 2, trace := trace w @ sample_events en f ?c (ticks w)\<rparr>"
  have s: "SIZE ?w mod scast (max_threads en) = 0" using Suc.prems by simp
  have m: "map (elapsed en (ticks w)) [0..<Suc n]
    = elapsed en (ticks w) 0 # map (elapsed en (ticks w + 2)) [0..<n]"
    unfolding upt_0_Suc_map by (simp add: elapsed_shift comp_def)
  have e: "map (\<lambda>i. sample_events en f ?c (ticks w + 2 * i)) [0..<Suc n]
    = sample_events en f ?c (ticks w)
      # map (\<lambda>i. sample_events en f ?c (ticks w + 2 + 2 * i)) [0..<n]"
    unfolding upt_0_Suc_map by (simp add: comp_def)
  show ?case
    unfolding m e
    using Suc.IH [OF s, of "keep_min (elapsed en (ticks w) 0) mn"]
    by (simp add: timeitp_sample_eq [OF assms(1) Suc.prems])
qed

lemma timeitp_eq:
  assumes "1 \<le> sint (max_threads en)" and "SIZE w mod scast (max_threads en) = 0"
  shows "timeitp en f w =
     Inr (w\<lparr>ticks := ticks w + 2 * SAMPLES,
       trace := trace w
         @ concat (map (\<lambda>i.
            sample_events en f (SIZE w div scast (max_threads en)) (ticks w + 2 * i)) [0..<SAMPLES])
         @ [Printf f True (to_bw (SIZE w * of_nat TIMES)
              (foldl (\<lambda>m t. keep_min t m) PInf (map (elapsed en (ticks w)) [0..<SAMPLES])))]\<rparr>)"
  by (simp add: timeitp_def timeitp_samples_eq [OF assms] emit_def)

lemma timeitp_abort:
  assumes "1 \<le> sint (max_threads en)" and "SIZE w mod scast (max_threads en) \<noteq> 0"
  shows "timeitp en f w = Inl (AssertionFailed, w)"
  by (simp add: timeitp_def SAMPLES_def eval_nat_numeral timeitp_sample_abort [OF assms])

section \<open>The events of the samplers\<close>

lemma timeit_events:
  assumes "unat (SIZE w) \<le> unat MAX_SIZE"
  shows "\<exists>E. timeit en f w = w\<lparr>ticks := ticks w + 2 * SAMPLES, trace := trace w @ E\<rparr>
    \<and> list_all sampler_event E"
proof -
  let ?E = "concat (replicate SAMPLES (Clock # replicate TIMES (Call f 0 0 (SIZE w)) @ [Clock]))
         @ [Printf f False (to_bw (SIZE w * of_nat TIMES)
              (foldl (\<lambda>m t. keep_min t m) PInf (map (elapsed en (ticks w)) [0..<SAMPLES])))]"
  have "list_all sampler_event ?E"
    using assms by (auto simp: list_all_iff sampler_event_def)
  then show ?thesis
    using timeit_eq [of en f w] by blast
qed

lemma timefun_all_events:
  assumes "unat (SIZE w) \<le> unat MAX_SIZE"
  shows "\<exists>n E. timefun_all en fs w = w\<lparr>ticks := n, trace := trace w @ E\<rparr>
    \<and> list_all sampler_event E"
  using assms
proof (induction fs arbitrary: w)
  case Nil
  have "timefun_all en [] w = w\<lparr>ticks := ticks w, trace := trace w @ []\<rparr>" by simp
  moreover have "list_all sampler_event []" by simp
  ultimately show ?case by blast
next
  case (Cons f fs)
  from timeit_events [OF Cons.prems, of en f] obtain E1
    where t: "timeit en f w = w\<lparr>ticks := ticks w + 2 * SAMPLES, trace := trace w @ E1\<rparr>"
      and e1: "list_all sampler_event E1" by blast
  let ?w = "w\<lparr>ticks := ticks w + 2 * SAMPLES, trace := trace w @ E1\<rparr>"
  have "unat (SIZE ?w) \<le> unat MAX_SIZE" using Cons.prems by simp
  from Cons.IH [OF this] obtain n E2
    where r: "timefun_all en fs ?w = ?w\<lparr>ticks := n, trace := trace ?w @ E2\<rparr>"
      and e2: "list_all sampler_event E2" by blast
  have "timefun_all en (f # fs) w = w\<lparr>ticks := n, trace := trace w @ (E1 @ E2)\<rparr>"
    by (simp add: t r)
  moreover have "list_all sampler_event (E1 @ E2)" using e1 e2 by simp
  ultimately show ?case by blast
qed

lemma thread_calls_events:
  assumes "1 \<le> sint (T :: c_int)" and "unat (S :: c_ullong) \<le> unat MAX_SIZE"
    and "tid < nat (sint T)"
  shows "list_all sampler_event (thread_calls f (S div scast T) tid)"
proof -
  let ?t = "nat (sint T)" and ?c = "unat S div nat (sint T)"
  have "Suc tid \<le> ?t" using assms(3) by simp
  then have "?c * Suc tid \<le> ?c * ?t" by (rule mult_le_mono2)
  also have "\<dots> \<le> unat S" by simp
  finally have "?c * tid + ?c \<le> unat MAX_SIZE" using assms(2) by simp
  then have "sampler_event (Call f tid (fst (chunk (S div scast T) tid)) (snd (chunk (S div scast T) tid)))"
    by (simp only: sampler_event_def event.case chunk_def fst_conv snd_conv
        unat_chunk_off [OF assms(1,3)] unat_chunk_size [OF assms(1)])
  then show ?thesis
    by (simp add: thread_calls_def list_all_iff)
qed

lemma team_member:
  assumes "1 \<le> sint (max_threads en)" and "tid \<in> set (team en k)"
  shows "tid < nat (sint (max_threads en))"
proof -
  have "1 \<le> nat (sint (max_threads en))" using assms(1) by linarith
  then have "team_size en k \<le> nat (sint (max_threads en))"
    by (simp add: team_size_def)
  moreover have "tid < team_size en k" using assms(2) by (simp add: team_def)
  ultimately show ?thesis by (rule less_le_trans [rotated])
qed

lemma sample_events_ok:
  assumes "1 \<le> sint (max_threads en)" and "unat (S :: c_ullong) \<le> unat MAX_SIZE"
  shows "list_all sampler_event (sample_events en f (S div scast (max_threads en)) k)"
proof -
  have "\<forall>tid\<in>set (team en k).
      list_all sampler_event (thread_calls f (S div scast (max_threads en)) tid)"
    using thread_calls_events [OF assms] team_member [OF assms(1)] by blast
  then show ?thesis
    by (auto simp: list_all_iff sample_events_def sampler_event_def)
qed

lemma timeitp_events:
  assumes "1 \<le> sint (max_threads en)" and "SIZE w mod scast (max_threads en) = 0"
    and "unat (SIZE w) \<le> unat MAX_SIZE"
  shows "\<exists>E. timeitp en f w = Inr (w\<lparr>ticks := ticks w + 2 * SAMPLES, trace := trace w @ E\<rparr>)
    \<and> list_all sampler_event E"
proof -
  let ?c = "SIZE w div scast (max_threads en)"
  let ?E = "concat (map (\<lambda>i. sample_events en f ?c (ticks w + 2 * i)) [0..<SAMPLES])
         @ [Printf f True (to_bw (SIZE w * of_nat TIMES)
              (foldl (\<lambda>m t. keep_min t m) PInf (map (elapsed en (ticks w)) [0..<SAMPLES])))]"
  have "\<forall>k. list_all sampler_event (sample_events en f ?c k)"
    using sample_events_ok [OF assms(1,3)] by blast
  then have "list_all sampler_event ?E"
    by (auto simp: list_all_iff sampler_event_def)
  then show ?thesis
    using timeitp_eq [OF assms(1,2), of f] by blast
qed

lemma timefunp_all_events:
  assumes "1 \<le> sint (max_threads en)" and "SIZE w mod scast (max_threads en) = 0"
    and "unat (SIZE w) \<le> unat MAX_SIZE"
  shows "\<exists>n E. timefunp_all en fs w = Inr (w\<lparr>ticks := n, trace := trace w @ E\<rparr>)
    \<and> list_all sampler_event E"
  using assms(2,3)
proof (induction fs arbitrary: w)
  case Nil
  have "timefunp_all en [] w = Inr (w\<lparr>ticks := ticks w, trace := trace w @ []\<rparr>)" by simp
  moreover have "list_all sampler_event []" by simp
  ultimately show ?case by blast
next
  case (Cons f fs)
  from timeitp_events [OF assms(1) Cons.prems, of f] obtain E1
    where t: "timeitp en f w = Inr (w\<lparr>ticks := ticks w + 2 * SAMPLES, trace := trace w @ E1\<rparr>)"
      and e1: "list_all sampler_event E1" by blast
  let ?w = "w\<lparr>ticks := ticks w + 2 * SAMPLES, trace := trace w @ E1\<rparr>"
  have "SIZE ?w mod scast (max_threads en) = 0" and "unat (SIZE ?w) \<le> unat MAX_SIZE"
    using Cons.prems by simp_all
  from Cons.IH [OF this] obtain n E2
    where r: "timefunp_all en fs ?w = Inr (?w\<lparr>ticks := n, trace := trace ?w @ E2\<rparr>)"
      and e2: "list_all sampler_event E2" by blast
  have "timefunp_all en (f # fs) w = Inr (w\<lparr>ticks := n, trace := trace w @ (E1 @ E2)\<rparr>)"
    by (simp add: t r)
  moreover have "list_all sampler_event (E1 @ E2)" using e1 e2 by simp
  ultimately show ?case by blast
qed

section \<open>The events of main\<close>

lemma single_core_shape:
  "\<exists>n E. list_all sampler_event E
     \<and> single_core b en initial_world =
         \<lparr>SIZE = MAX_SIZE, ticks = n,
          trace = Memset MAX_SIZE # Nice # (if nice_fails en then [Perror] else [])
            @ Header_single # E\<rparr>"
proof -
  let ?w = "\<lparr>SIZE = MAX_SIZE, ticks = 0,
          trace = Memset MAX_SIZE # Nice # (if nice_fails en then [Perror] else [])
            @ [Header_single]\<rparr>"
  have s: "single_core b en initial_world = timefun_all en (catalogue b) ?w"
    by (simp add: single_core_def initial_world_def emit_def)
  have "unat (SIZE ?w) \<le> unat MAX_SIZE" by simp
  from timefun_all_events [OF this, of en "catalogue b"] obtain n E
    where "timefun_all en (catalogue b) ?w = ?w\<lparr>ticks := n, trace := trace ?w @ E\<rparr>"
      and "list_all sampler_event E" by blast
  then show ?thesis unfolding s by auto
qed

lemma multi_core_shape:
  assumes "1 \<le> sint (max_threads en)"
  shows "\<exists>n E. list_all sampler_event E
     \<and> multi_core b en w =
         Inr (w\<lparr>SIZE := omp_size (max_threads en), ticks := n,
          trace := trace w @ Header_multi (max_threads en)
            # Memset (omp_size (max_threads en)) # E\<rparr>)"
proof -
  let ?T = "max_threads en"
  let ?w = "w\<lparr>SIZE := omp_size ?T,
          trace := trace w @ [Header_multi ?T, Memset (omp_size ?T)]\<rparr>"
  have "sint ?T \<noteq> 0" using assms by simp
  then have s: "multi_core b en w = timefunp_all en (catalogue b) ?w"
    by (simp add: multi_core_def Let_def emit_def)
  have "SIZE ?w mod scast ?T = 0" and "unat (SIZE ?w) \<le> unat MAX_SIZE"
    using omp_size_mod_T [OF assms] omp_size_le [OF assms] by simp_all
  from timefunp_all_events [OF assms this, of "catalogue b"] obtain n E
    where "timefunp_all en (catalogue b) ?w = Inr (?w\<lparr>ticks := n, trace := trace ?w @ E\<rparr>)"
      and "list_all sampler_event E" by blast
  then show ?thesis unfolding s by auto
qed

lemma main_shape:
  assumes "with_openmp b \<longrightarrow> 1 \<le> sint (max_threads en)"
  shows "\<exists>n E1 E2. list_all sampler_event E1 \<and> list_all sampler_event E2
     \<and> main b en =
         Inr \<lparr>SIZE = (if with_openmp b then omp_size (max_threads en) else MAX_SIZE),
          ticks = n,
          trace = Memset MAX_SIZE # Nice # (if nice_fails en then [Perror] else [])
            @ Header_single # E1
            @ (if with_openmp b
               then Header_multi (max_threads en) # Memset (omp_size (max_threads en)) # E2
               else [])\<rparr>"
proof -
  from single_core_shape [of b en] obtain n1 E1
    where e1: "list_all sampler_event E1"
      and s: "single_core b en initial_world =
         \<lparr>SIZE = MAX_SIZE, ticks = n1,
          trace = Memset MAX_SIZE # Nice # (if nice_fails en then [Perror] else [])
            @ Header_single # E1\<rparr>" by blast
  show ?thesis
  proof (cases "with_openmp b")
    case False
    have "list_all sampler_event []" by simp
    with e1 False s show ?thesis
      by (simp add: main_def) blast
  next
    case True
    with assms have "1 \<le> sint (max_threads en)" by simp
    from multi_core_shape [OF this, of b "single_core b en initial_world"] obtain n2 E2
      where e2: "list_all sampler_event E2"
        and m: "multi_core b en (single_core b en initial_world) =
         Inr ((single_core b en initial_world)\<lparr>SIZE := omp_size (max_threads en), ticks := n2,
          trace := trace (single_core b en initial_world) @ Header_multi (max_threads en)
            # Memset (omp_size (max_threads en)) # E2\<rparr>)" by blast
    have "main b en =
         Inr \<lparr>SIZE = omp_size (max_threads en), ticks = n2,
          trace = Memset MAX_SIZE # Nice # (if nice_fails en then [Perror] else [])
            @ Header_single # E1
            @ Header_multi (max_threads en) # Memset (omp_size (max_threads en)) # E2\<rparr>"
      using True by (simp add: main_def m) (simp add: s)
    with e1 e2 True show ?thesis by auto
  qed
qed

section \<open>The recomputed Active Size\<close>

lemma omp_size_multiple:
  assumes "1 \<le> sint (T :: c_int)"
  shows "unat (omp_size T)
    = unat MAX_SIZE div (unat PAGE_SIZE * nat (sint T)) * (unat PAGE_SIZE * nat (sint T))"
proof -
  have p: "unat PAGE_SIZE = 4096" by (simp add: PAGE_SIZE_def)
  have "(2 ^ 30 :: nat) div nat (sint T) div 4096 = 2 ^ 30 div (4096 * nat (sint T))"
    by (simp only: div_mult2_eq [symmetric] mult.commute)
  then show ?thesis
    by (simp only: unat_omp_size [OF assms] unat_MAX_SIZE p ac_simps)
qed

lemma omp_size_greatest:
  assumes "1 \<le> sint (T :: c_int)"
    and "(unat PAGE_SIZE * nat (sint T)) dvd m" and "m \<le> unat MAX_SIZE"
  shows "m \<le> unat (omp_size T)"
proof -
  let ?d = "unat PAGE_SIZE * nat (sint T)"
  from assms(2) obtain j where m: "m = ?d * j" by (rule dvdE)
  have "0 < ?d" using assms(1) by (simp add: PAGE_SIZE_def)
  have "j * ?d \<le> unat MAX_SIZE" using assms(3) by (simp only: m mult.commute)
  then have "j \<le> unat MAX_SIZE div ?d"
    using \<open>0 < ?d\<close> by (simp only: less_eq_div_iff_mult_less_eq)
  then have "j * ?d \<le> unat MAX_SIZE div ?d * ?d" by (rule mult_le_mono1)
  then show ?thesis
    by (simp only: omp_size_multiple [OF assms(1)] m mult.commute)
qed

lemma omp_chunk_aligned:
  assumes "1 \<le> sint (T :: c_int)" and "i < nat (sint T)"
  shows "unat PAGE_SIZE dvd unat (snd (chunk (omp_size T div scast T) i))"
    and "unat PAGE_SIZE dvd unat (fst (chunk (omp_size T div scast T) i))"
proof -
  have p: "unat PAGE_SIZE = 4096" by (simp add: PAGE_SIZE_def)
  show "unat PAGE_SIZE dvd unat (snd (chunk (omp_size T div scast T) i))"
    by (simp only: chunk_def snd_conv unat_omp_chunk_size [OF assms(1)] p) simp
  have "unat (omp_size T div scast T * of_nat i) = unat (omp_size T div scast T) * i"
    by (simp only: unat_chunk_off [OF assms] unat_chunk_size [OF assms(1)])
  then show "unat PAGE_SIZE dvd unat (fst (chunk (omp_size T div scast T) i))"
    by (simp only: chunk_def fst_conv unat_omp_chunk_size [OF assms(1)] p) simp
qed

lemma omp_size_4: "omp_size 4 = MAX_SIZE"
proof -
  have "1 \<le> sint (4 :: c_int)" by simp
  from unat_omp_size [OF this] have "unat (omp_size 4) = unat MAX_SIZE"
    by (simp add: unat_MAX_SIZE)
  then show ?thesis by (rule unsigned_word_eqI)
qed

text \<open>
  C3. For a thread count \<open>T \<ge> 1\<close>, the Active Size that \<^verbatim>\<open>main\<close> computes for the
  multi-core pass is the largest multiple of \<open>PAGE_SIZE * T\<close> that is at most \<open>MAX_SIZE\<close>;
  every thread's chunk has the same length \<open>SIZE / T\<close>, a multiple of \<open>PAGE_SIZE\<close>, and
  starts at a multiple of \<open>PAGE_SIZE\<close>; the multi-core pass of \<^verbatim>\<open>main\<close> runs with that
  Active Size. For \<open>T = 4\<close> it is the whole 1 GiB.
\<close>

theorem omp_size_largest_multiple:
  assumes "1 \<le> sint (T :: c_int)"
  shows "unat (omp_size T)
        = unat MAX_SIZE div (unat PAGE_SIZE * nat (sint T)) * (unat PAGE_SIZE * nat (sint T))
    \<and> unat (omp_size T) \<le> unat MAX_SIZE
    \<and> (\<forall>m. (unat PAGE_SIZE * nat (sint T)) dvd m \<and> m \<le> unat MAX_SIZE
          \<longrightarrow> m \<le> unat (omp_size T))
    \<and> unat (omp_size T div scast T) * nat (sint T) = unat (omp_size T)
    \<and> (\<forall>i<nat (sint T).
          snd (chunk (omp_size T div scast T) i) = omp_size T div scast T
          \<and> unat PAGE_SIZE dvd unat (snd (chunk (omp_size T div scast T) i))
          \<and> unat PAGE_SIZE dvd unat (fst (chunk (omp_size T div scast T) i)))
    \<and> (\<forall>b en. with_openmp b \<and> max_threads en = T
          \<longrightarrow> (\<exists>w. main b en = Inr w \<and> SIZE w = omp_size T))
    \<and> omp_size 4 = MAX_SIZE"
proof (intro conjI allI impI)
  show "unat (omp_size T)
        = unat MAX_SIZE div (unat PAGE_SIZE * nat (sint T)) * (unat PAGE_SIZE * nat (sint T))"
    by (rule omp_size_multiple [OF assms])
  show "unat (omp_size T) \<le> unat MAX_SIZE" by (rule omp_size_le [OF assms])
  show "m \<le> unat (omp_size T)"
    if "(unat PAGE_SIZE * nat (sint T)) dvd m \<and> m \<le> unat MAX_SIZE" for m
    using that omp_size_greatest [OF assms] by blast
  show "unat (omp_size T div scast T) * nat (sint T) = unat (omp_size T)"
    by (simp only: unat_omp_chunk_size [OF assms] unat_omp_size [OF assms])
  show "snd (chunk (omp_size T div scast T) i) = omp_size T div scast T" for i
    by (simp add: chunk_def)
  show "unat PAGE_SIZE dvd unat (snd (chunk (omp_size T div scast T) i))"
    if "i < nat (sint T)" for i
    by (rule omp_chunk_aligned(1) [OF assms that])
  show "unat PAGE_SIZE dvd unat (fst (chunk (omp_size T div scast T) i))"
    if "i < nat (sint T)" for i
    by (rule omp_chunk_aligned(2) [OF assms that])
  show "\<exists>w. main b en = Inr w \<and> SIZE w = omp_size T"
    if "with_openmp b \<and> max_threads en = T" for b en
  proof -
    from that assms have "with_openmp b \<longrightarrow> 1 \<le> sint (max_threads en)" by simp
    from main_shape [OF this] that show ?thesis by auto
  qed
  show "omp_size 4 = MAX_SIZE" by (rule omp_size_4)
qed

theorem omp_size_largest_multiple_witness:
  "1 \<le> sint (4 :: c_int)
   \<and> unat (omp_size 4) = 1073741824
   \<and> unat (omp_size 4 div scast (4 :: c_int)) = 268435456
   \<and> unat (fst (chunk (omp_size 4 div scast (4 :: c_int)) 3)) = 196608 * 4096
   \<and> (\<exists>w. main omp_build example_env = Inr w \<and> SIZE w = MAX_SIZE)"
proof -
  have h: "1 \<le> sint (4 :: c_int)" by simp
  note t = omp_size_largest_multiple [OF h]
  have s: "omp_size 4 = MAX_SIZE" using t by blast
  have "\<forall>b en. with_openmp b \<and> max_threads en = 4
          \<longrightarrow> (\<exists>w. main b en = Inr w \<and> SIZE w = omp_size 4)"
    using t by blast
  then have m: "\<exists>w. main omp_build example_env = Inr w \<and> SIZE w = MAX_SIZE"
    by (simp add: omp_build_def example_env_def s)
  have c: "unat (MAX_SIZE div scast (4 :: c_int)) = 268435456"
    by (simp add: MAX_SIZE_def BYTES_PER_GB_def)
  have o: "unat (fst (chunk (MAX_SIZE div scast (4 :: c_int)) 3)) = 196608 * 4096"
    by (simp add: chunk_def MAX_SIZE_def BYTES_PER_GB_def)
  show ?thesis
    using h m c o by (simp add: s unat_MAX_SIZE)
qed

section \<open>The assertion of timeitp\<close>

lemma timeitp_samples_abort:
  assumes "1 \<le> sint (max_threads en)" and "SIZE w mod scast (max_threads en) \<noteq> 0"
  shows "timeitp_samples (Suc n) en f (mn, w) = Inl (AssertionFailed, w)"
  by (simp add: timeitp_sample_abort [OF assms])

lemma timefunp_all_abort:
  assumes "1 \<le> sint (max_threads en)" and "SIZE w mod scast (max_threads en) \<noteq> 0"
  shows "timefunp_all en (f # fs) w = Inl (AssertionFailed, w)"
  by (simp add: timeitp_abort [OF assms])

text \<open>
  C4. With the \<^verbatim>\<open>assert\<close> compiled in, a sample of \<^verbatim>\<open>timeitp\<close> that starts with an Active
  Size the thread count does not divide ends the run there: the sample, the remaining
  samples, \<^verbatim>\<open>timeitp\<close> and the kernels that would follow all return the failed assertion,
  with the world as it was when the sample started, so that no clock is read, no chunk
  is computed and no kernel is invoked after the check.
\<close>

theorem timeitp_assert_aborts:
  assumes "1 \<le> sint (max_threads en)" and "SIZE w mod scast (max_threads en) \<noteq> 0"
  shows "timeitp_sample en f (mn, w) = Inl (AssertionFailed, w)
    \<and> timeitp_samples (Suc n) en f (mn, w) = Inl (AssertionFailed, w)
    \<and> timeitp en f w = Inl (AssertionFailed, w)
    \<and> timefunp_all en (f # fs) w = Inl (AssertionFailed, w)"
  using timeitp_sample_abort [OF assms] timeitp_samples_abort [OF assms] timeitp_abort [OF assms]
    timefunp_all_abort [OF assms]
  by simp

theorem timeitp_assert_aborts_witness:
  "1 \<le> sint (max_threads three_threads_env)
   \<and> SIZE initial_world mod scast (max_threads three_threads_env) = 1
   \<and> timeitp_sample three_threads_env read_memory_loop (PInf, initial_world)
       = Inl (AssertionFailed, initial_world)
   \<and> timeitp three_threads_env read_memory_loop initial_world
       = Inl (AssertionFailed, initial_world)
   \<and> timefunp_all three_threads_env [read_memory_loop, write_memory_loop] initial_world
       = Inl (AssertionFailed, initial_world)"
proof -
  have h1: "1 \<le> sint (max_threads three_threads_env)"
    by (simp add: three_threads_env_def)
  have m: "SIZE initial_world mod scast (max_threads three_threads_env) = 1"
    by (simp add: three_threads_env_def initial_world_def MAX_SIZE_def BYTES_PER_GB_def)
  then have h2: "SIZE initial_world mod scast (max_threads three_threads_env) \<noteq> 0"
    by simp
  show ?thesis
    using h1 m timeitp_assert_aborts [OF h1 h2] by simp
qed

text \<open>
  C8. For a thread count \<open>T \<ge> 1\<close> the Active Size that \<^verbatim>\<open>main\<close> computes is divisible by
  \<open>T\<close>; the multi-core pass, from any state, and \<^verbatim>\<open>main\<close> as a whole run to completion, so
  the assertion of \<^verbatim>\<open>timeitp\<close> does not fail in them.
\<close>

theorem omp_assert_never_fails:
  assumes "1 \<le> sint (max_threads en)"
  shows "omp_size (max_threads en) mod scast (max_threads en) = 0
    \<and> (\<exists>w'. multi_core b en w = Inr w'
          \<and> SIZE w' = omp_size (max_threads en)
          \<and> SIZE w' mod scast (max_threads en) = 0)
    \<and> (\<exists>w'. main b en = Inr w')"
proof (intro conjI)
  show d: "omp_size (max_threads en) mod scast (max_threads en) = 0"
    by (rule omp_size_mod_T [OF assms])
  from multi_core_shape [OF assms, of b w] obtain w'
    where m: "multi_core b en w = Inr w'" and s: "SIZE w' = omp_size (max_threads en)"
    by auto
  from d s have z: "SIZE w' mod scast (max_threads en) = 0" by (simp only:)
  show "\<exists>w'. multi_core b en w = Inr w'
          \<and> SIZE w' = omp_size (max_threads en)
          \<and> SIZE w' mod scast (max_threads en) = 0"
    by (intro exI [of _ w'] conjI) (fact m s z)+
  from assms have "with_openmp b \<longrightarrow> 1 \<le> sint (max_threads en)" by simp
  from main_shape [OF this] show "\<exists>w'. main b en = Inr w'" by blast
qed

theorem omp_assert_never_fails_witness:
  "1 \<le> sint (max_threads three_threads_env)
   \<and> unat (omp_size (max_threads three_threads_env)) = 1073737728
   \<and> omp_size (max_threads three_threads_env) mod scast (max_threads three_threads_env) = 0
   \<and> (\<exists>w'. main omp_build three_threads_env = Inr w')"
proof -
  have h: "1 \<le> sint (max_threads three_threads_env)"
    by (simp add: three_threads_env_def)
  have "1 \<le> sint (3 :: c_int)" by simp
  from unat_omp_size [OF this]
  have u: "unat (omp_size (max_threads three_threads_env)) = 1073737728"
    by (simp add: three_threads_env_def)
  show ?thesis
    using h u omp_assert_never_fails [OF h, of omp_build initial_world] by simp
qed

section \<open>Initialisation and bounds in a whole run\<close>

lemma sampler_event_not_Memset: "list_all sampler_event E \<Longrightarrow> filter is_Memset E = []"
  by (induction E) (auto simp: sampler_event_def is_Memset_def split: event.splits)

lemma sampler_event_in_buffer: "list_all sampler_event E \<Longrightarrow> list_all in_buffer E"
  by (induction E) (auto simp: sampler_event_def in_buffer_def split: event.splits)

lemma main_two_memsets:
  assumes "with_openmp b" and "1 \<le> sint (max_threads en)"
  shows "length (filter is_Memset (trace (final_world (main b en)))) = 2"
proof -
  from assms have "with_openmp b \<longrightarrow> 1 \<le> sint (max_threads en)" by simp
  from main_shape [OF this] obtain n E1 E2
    where e: "list_all sampler_event E1" "list_all sampler_event E2"
      and m: "main b en =
         Inr \<lparr>SIZE = (if with_openmp b then omp_size (max_threads en) else MAX_SIZE),
          ticks = n,
          trace = Memset MAX_SIZE # Nice # (if nice_fails en then [Perror] else [])
            @ Header_single # E1
            @ (if with_openmp b
               then Header_multi (max_threads en) # Memset (omp_size (max_threads en)) # E2
               else [])\<rparr>"
    by blast
  show ?thesis
    using assms(1)
    by (simp add: m final_world_def sampler_event_not_Memset [OF e(1)]
        sampler_event_not_Memset [OF e(2)] is_Memset_def)
qed

text \<open>
  C7, as stated, fails in a build with the multi-core pass: a run on four hardware threads
  initialises the buffer twice, at line 111 and again at line 148.
\<close>

theorem buffer_initialised_twice_with_openmp:
  "length (filter is_Memset (trace (final_world (main omp_build example_env)))) = 2"
proof -
  have "with_openmp omp_build" by (simp add: omp_build_def)
  moreover have "1 \<le> sint (max_threads example_env)" by (simp add: example_env_def)
  ultimately show ?thesis by (rule main_two_memsets)
qed

text \<open>
  C7, as amended. The first thing \<^verbatim>\<open>main\<close> does is to initialise the whole buffer, so no
  kernel invocation precedes the initialisation. A build without the multi-core pass
  initialises the buffer once; a build with it initialises the buffer a second time, over
  the recomputed Active Size, after the last single-thread kernel and before the first
  multi-core kernel.
\<close>

theorem buffer_initialised_first:
  assumes "with_openmp b \<longrightarrow> 1 \<le> sint (max_threads en)"
  shows "\<exists>w rest. main b en = Inr w
    \<and> trace w = Memset MAX_SIZE # rest
    \<and> length (filter is_Memset (trace w)) = (if with_openmp b then 2 else 1)
    \<and> (\<exists>pre post. list_all sampler_event pre \<and> list_all sampler_event post
          \<and> rest = Nice # (if nice_fails en then [Perror] else []) @ Header_single # pre
              @ (if with_openmp b
                 then Header_multi (max_threads en) # Memset (omp_size (max_threads en)) # post
                 else []))"
proof -
  from main_shape [OF assms] obtain n E1 E2
    where e: "list_all sampler_event E1" "list_all sampler_event E2"
      and m: "main b en =
         Inr \<lparr>SIZE = (if with_openmp b then omp_size (max_threads en) else MAX_SIZE),
          ticks = n,
          trace = Memset MAX_SIZE # Nice # (if nice_fails en then [Perror] else [])
            @ Header_single # E1
            @ (if with_openmp b
               then Header_multi (max_threads en) # Memset (omp_size (max_threads en)) # E2
               else [])\<rparr>"
    by blast
  let ?rest = "Nice # (if nice_fails en then [Perror] else []) @ Header_single # E1
            @ (if with_openmp b
               then Header_multi (max_threads en) # Memset (omp_size (max_threads en)) # E2
               else [])"
  let ?w = "\<lparr>SIZE = (if with_openmp b then omp_size (max_threads en) else MAX_SIZE),
          ticks = n, trace = Memset MAX_SIZE # ?rest\<rparr>"
  have 1: "main b en = Inr ?w" by (simp only: m)
  have 2: "trace ?w = Memset MAX_SIZE # ?rest" by simp
  have 3: "length (filter is_Memset (trace ?w)) = (if with_openmp b then 2 else 1)"
    by (simp add: sampler_event_not_Memset [OF e(1)] sampler_event_not_Memset [OF e(2)]
        is_Memset_def)
  have 4: "\<exists>pre post. list_all sampler_event pre \<and> list_all sampler_event post
          \<and> ?rest = Nice # (if nice_fails en then [Perror] else []) @ Header_single # pre
              @ (if with_openmp b
                 then Header_multi (max_threads en) # Memset (omp_size (max_threads en)) # post
                 else [])"
    using e by blast
  show ?thesis
    by (rule exI [of _ ?w], rule exI [of _ ?rest], intro conjI) (fact 1 2 3 4)+
qed

theorem buffer_initialised_first_witness:
  "1 \<le> sint (max_threads three_threads_env)
   \<and> (\<exists>w rest. main omp_build three_threads_env = Inr w
        \<and> trace w = Memset MAX_SIZE # rest
        \<and> length (filter is_Memset (trace w)) = 2)"
proof -
  have h: "1 \<le> sint (max_threads three_threads_env)"
    by (simp add: three_threads_env_def)
  then have "with_openmp omp_build \<longrightarrow> 1 \<le> sint (max_threads three_threads_env)" by simp
  from buffer_initialised_first [OF this] obtain w rest
    where "main omp_build three_threads_env = Inr w" and "trace w = Memset MAX_SIZE # rest"
      and "length (filter is_Memset (trace w)) = (if with_openmp omp_build then 2 else 1)"
    by blast
  then have "\<exists>w rest. main omp_build three_threads_env = Inr w
        \<and> trace w = Memset MAX_SIZE # rest
        \<and> length (filter is_Memset (trace w)) = 2"
    by (simp add: omp_build_def)
  with h show ?thesis by (rule conjI)
qed

lemma chunk_end_le:
  assumes "1 \<le> sint (T :: c_int)" and "tid < nat (sint T)"
  shows "unat (fst (chunk ((S :: c_ullong) div scast T) tid))
      + unat (snd (chunk (S div scast T) tid)) \<le> unat S"
proof -
  let ?t = "nat (sint T)" and ?c = "unat S div nat (sint T)"
  have "Suc tid \<le> ?t" using assms(2) by simp
  then have "?c * Suc tid \<le> ?c * ?t" by (rule mult_le_mono2)
  also have "\<dots> \<le> unat S" by simp
  finally have "?c * tid + ?c \<le> unat S" by simp
  then show ?thesis
    by (simp only: chunk_def fst_conv snd_conv unat_chunk_off [OF assms] unat_chunk_size [OF assms(1)])
qed

text \<open>
  C9. In a run of \<^verbatim>\<open>main\<close>, with a thread count \<open>T \<ge> 1\<close> when the multi-core pass is
  compiled in, every kernel invocation of either pass is handed a range whose offset plus
  length, as natural numbers, is at most \<open>MAX_SIZE\<close>, the size of \<^verbatim>\<open>array\<close>. The single-thread
  pass runs with an Active Size of at most \<open>MAX_SIZE\<close>; in the multi-core pass the chunk
  length times \<open>T\<close> is the Active Size, again at most \<open>MAX_SIZE\<close>, and every thread's offset
  plus the chunk length is at most the Active Size.
\<close>

theorem kernel_ranges_in_buffer:
  assumes "with_openmp b \<longrightarrow> 1 \<le> sint (max_threads en)"
  shows "list_all in_buffer (trace (final_world (main b en)))
    \<and> unat (SIZE initial_world) \<le> unat MAX_SIZE
    \<and> (with_openmp b \<longrightarrow>
          unat (omp_size (max_threads en) div scast (max_threads en)) * nat (sint (max_threads en))
            = unat (omp_size (max_threads en))
          \<and> unat (omp_size (max_threads en)) \<le> unat MAX_SIZE
          \<and> (\<forall>tid<nat (sint (max_threads en)).
                unat (fst (chunk (omp_size (max_threads en) div scast (max_threads en)) tid))
                  + unat (snd (chunk (omp_size (max_threads en) div scast (max_threads en)) tid))
                \<le> unat (omp_size (max_threads en))))"
proof (intro conjI impI allI)
  from main_shape [OF assms] obtain n E1 E2
    where e: "list_all sampler_event E1" "list_all sampler_event E2"
      and m: "main b en =
         Inr \<lparr>SIZE = (if with_openmp b then omp_size (max_threads en) else MAX_SIZE),
          ticks = n,
          trace = Memset MAX_SIZE # Nice # (if nice_fails en then [Perror] else [])
            @ Header_single # E1
            @ (if with_openmp b
               then Header_multi (max_threads en) # Memset (omp_size (max_threads en)) # E2
               else [])\<rparr>"
    by blast
  show "list_all in_buffer (trace (final_world (main b en)))"
    by (simp add: m final_world_def sampler_event_in_buffer [OF e(1)]
        sampler_event_in_buffer [OF e(2)] in_buffer_def)
  show "unat (SIZE initial_world) \<le> unat MAX_SIZE"
    by (simp add: initial_world_def)
next
  assume "with_openmp b"
  with assms have T: "1 \<le> sint (max_threads en)" by simp
  show "unat (omp_size (max_threads en) div scast (max_threads en)) * nat (sint (max_threads en))
            = unat (omp_size (max_threads en))"
    by (simp only: unat_omp_chunk_size [OF T] unat_omp_size [OF T])
  show "unat (omp_size (max_threads en)) \<le> unat MAX_SIZE"
    by (rule omp_size_le [OF T])
  show "unat (fst (chunk (omp_size (max_threads en) div scast (max_threads en)) tid))
                  + unat (snd (chunk (omp_size (max_threads en) div scast (max_threads en)) tid))
                \<le> unat (omp_size (max_threads en))"
    if "tid < nat (sint (max_threads en))" for tid
    by (rule chunk_end_le [OF T that])
qed

theorem kernel_ranges_in_buffer_witness:
  "1 \<le> sint (max_threads example_env)
   \<and> list_all in_buffer (trace (final_world (main omp_build example_env)))"
proof -
  have h: "1 \<le> sint (max_threads example_env)"
    by (simp add: example_env_def)
  then have "with_openmp omp_build \<longrightarrow> 1 \<le> sint (max_threads example_env)" by simp
  from h kernel_ranges_in_buffer [OF this, THEN conjunct1] show ?thesis by (rule conjI)
qed

section \<open>Minimum elapsed time and maximum bandwidth\<close>

lemma bw_antitone:
  fixes a s t :: real
  assumes "0 \<le> a" and "0 < s" and "s \<le> t"
  shows "a / t \<le> a / s"
  using assms by (simp add: frac_le)

lemma Max_bw_Min:
  fixes a :: real
  assumes "0 \<le> a" and "ts \<noteq> []" and "\<forall>t\<in>set ts. 0 < t"
  shows "Max ((\<lambda>t. a / t) ` set ts) = a / Min (set ts)"
proof (rule Max_eqI)
  show "finite ((\<lambda>t. a / t) ` set ts)" by simp
  have mn: "Min (set ts) \<in> set ts" using assms(2) by (simp add: Min_in)
  then show "a / Min (set ts) \<in> (\<lambda>t. a / t) ` set ts" by (rule imageI)
  fix y assume "y \<in> (\<lambda>t. a / t) ` set ts"
  then obtain t where t: "t \<in> set ts" and y: "y = a / t" by auto
  have "Min (set ts) \<le> t" using t by simp
  moreover have "0 < Min (set ts)" using mn assms(3) by blast
  ultimately show "y \<le> a / Min (set ts)"
    unfolding y using assms(1) by (intro bw_antitone)
qed

text \<open>
  C10. For a byte count and a non-empty list of strictly positive elapsed times, the
  reduction of the samplers selects the minimum of the times, each time has the bandwidth
  \<open>bytes / 1024 ^ 3 / t\<close>, which does not grow with \<open>t\<close>, and the bandwidth of the minimum
  time is the maximum of the bandwidths of the samples.
\<close>

theorem min_elapsed_is_max_bandwidth:
  assumes "ts \<noteq> []" and "\<forall>t\<in>set ts. 0 < t"
  shows "foldl (\<lambda>m t. keep_min t m) PInf (map Fin ts) = Fin (Min (set ts))
    \<and> (\<forall>t\<in>set ts. to_bw bytes (Fin t) = Fin (real (unat bytes) / 1024 ^ 3 / t))
    \<and> (\<forall>s t. 0 < s \<and> s \<le> t \<longrightarrow>
          real (unat bytes) / 1024 ^ 3 / t \<le> real (unat bytes) / 1024 ^ 3 / s)
    \<and> to_bw bytes (Fin (Min (set ts)))
        = Fin (Max ((\<lambda>t. real (unat bytes) / 1024 ^ 3 / t) ` set ts))"
proof (intro conjI ballI allI impI)
  have "0 \<le> real (unat bytes)" by (rule of_nat_0_le_iff)
  then have a: "0 \<le> real (unat bytes) / 1024 ^ 3" by (rule divide_nonneg_nonneg) simp
  show "foldl (\<lambda>m t. keep_min t m) PInf (map Fin ts) = Fin (Min (set ts))"
    by (rule foldl_keep_min_PInf [OF assms(1)])
  show "to_bw bytes (Fin t) = Fin (real (unat bytes) / 1024 ^ 3 / t)" if "t \<in> set ts" for t
  proof -
    from that assms(2) have "t \<noteq> 0" by auto
    then show ?thesis by (rule to_bw_Fin)
  qed
  show "real (unat bytes) / 1024 ^ 3 / t \<le> real (unat bytes) / 1024 ^ 3 / s"
    if "0 < s \<and> s \<le> t" for s t
    using that by (intro bw_antitone [OF a]) simp_all
  have "Min (set ts) \<in> set ts" using assms(1) by (simp add: Min_in)
  with assms(2) have "Min (set ts) \<noteq> 0" by auto
  then have "to_bw bytes (Fin (Min (set ts))) = Fin (real (unat bytes) / 1024 ^ 3 / Min (set ts))"
    by (rule to_bw_Fin)
  moreover have "Max ((\<lambda>t. real (unat bytes) / 1024 ^ 3 / t) ` set ts)
      = real (unat bytes) / 1024 ^ 3 / Min (set ts)"
    by (rule Max_bw_Min [OF a assms])
  ultimately show "to_bw bytes (Fin (Min (set ts)))
        = Fin (Max ((\<lambda>t. real (unat bytes) / 1024 ^ 3 / t) ` set ts))"
    by (simp only:)
qed

theorem min_elapsed_is_max_bandwidth_witness:
  "foldl (\<lambda>m t. keep_min t m) PInf (map Fin [0.9, 0.5, 0.7, 0.6, 0.8]) = Fin 0.5
   \<and> Min (set [0.9, 0.5, 0.7, 0.6, 0.8 :: real]) = 0.5
   \<and> to_bw (5 * BYTES_PER_GB) (Fin 0.5) = Fin 10
   \<and> Max ((\<lambda>t. real (unat (5 * BYTES_PER_GB)) / 1024 ^ 3 / t) ` set [0.9, 0.5, 0.7, 0.6, 0.8])
       = 10"
proof -
  have h1: "[0.9, 0.5, 0.7, 0.6, 0.8 :: real] \<noteq> []" by simp
  have h2: "\<forall>t\<in>set [0.9, 0.5, 0.7, 0.6, 0.8 :: real]. 0 < t" by simp
  have mn: "Min (set [0.9, 0.5, 0.7, 0.6, 0.8 :: real]) = 0.5" by simp
  have bw: "to_bw (5 * BYTES_PER_GB) (Fin 0.5) = Fin 10"
    by (simp add: to_bw_def BYTES_PER_GB_def)
  note r = min_elapsed_is_max_bandwidth [OF h1 h2, of "5 * BYTES_PER_GB", unfolded mn bw]
  from r have 1: "foldl (\<lambda>m t. keep_min t m) PInf (map Fin [0.9, 0.5, 0.7, 0.6, 0.8]) = Fin 0.5"
    by (rule conjunct1)
  from r have "Fin 10
      = Fin (Max ((\<lambda>t. real (unat (5 * BYTES_PER_GB)) / 1024 ^ 3 / t) ` set [0.9, 0.5, 0.7, 0.6, 0.8]))"
    by (rule conjunct2 [THEN conjunct2, THEN conjunct2])
  then have 2: "Max ((\<lambda>t. real (unat (5 * BYTES_PER_GB)) / 1024 ^ 3 / t) ` set [0.9, 0.5, 0.7, 0.6, 0.8])
       = 10"
    by (simp only: double.inject)
  from 1 mn bw 2 show ?thesis by (intro conjI)
qed

section \<open>The ranges handed to a team\<close>

lemma team_size_le:
  assumes "1 \<le> sint (max_threads en)"
  shows "team_size en k \<le> nat (sint (max_threads en))"
proof -
  have "1 \<le> nat (sint (max_threads en))" using assms by linarith
  then show ?thesis by (simp add: team_size_def)
qed

lemma handed_append: "handed (E @ F) = handed E \<union> handed F"
  by (simp add: handed_def)

lemma handed_thread_calls: "handed (thread_calls f c tid) = range_bytes (chunk c tid)"
  by (simp add: handed_def thread_calls_def TIMES_def)

lemma handed_threads:
  "handed (concat (map (thread_calls f c) tids)) = (\<Union>tid \<in> set tids. range_bytes (chunk c tid))"
  by (induction tids) (simp_all add: handed_append handed_thread_calls, simp add: handed_def)

lemma handed_sample_events:
  "handed (sample_events en f c k) = (\<Union>tid<team_size en k. range_bytes (chunk c tid))"
proof -
  have "handed (sample_events en f c k) = handed (concat (map (thread_calls f c) (team en k)))"
    by (simp add: sample_events_def handed_def)
  also have "\<dots> = (\<Union>tid \<in> set (team en k). range_bytes (chunk c tid))"
    by (rule handed_threads)
  also have "set (team en k) = {..<team_size en k}"
    by (auto simp: team_def)
  finally show ?thesis .
qed

text \<open>
  What the partition of \<^verbatim>\<open>timeitp\<close> does achieve, for a thread count \<open>T \<ge> 1\<close>: a sample hands
  thread \<open>i\<close> of its team the bytes \<open>[i * (S div T), (i + 1) * (S div T))\<close>, the ranges of two
  threads are disjoint, and together the ranges of a team of \<open>N\<close> threads are
  \<open>[0, N * (S div T))\<close>. When \<open>T\<close> divides \<open>S\<close>, that is \<open>[0, S)\<close> for a team of \<open>T\<close> threads and
  less for a smaller team.
\<close>

lemma team_ranges:
  assumes "1 \<le> sint (max_threads en)" and "i \<in> set (team en k)"
  shows "range_bytes (chunk (S div scast (max_threads en)) i)
    = {i * (unat S div nat (sint (max_threads en)))
        ..< (i + 1) * (unat S div nat (sint (max_threads en)))}"
  by (rule range_bytes_chunk [OF assms(1) team_member [OF assms]])

lemma team_ranges_disjoint:
  assumes "1 \<le> sint (max_threads en)" and "i \<in> set (team en k)" and "j \<in> set (team en k)"
    and "i \<noteq> j"
  shows "range_bytes (chunk (S div scast (max_threads en)) i)
    \<inter> range_bytes (chunk (S div scast (max_threads en)) j) = {}"
  by (simp only: team_ranges [OF assms(1,2)] team_ranges [OF assms(1,3)]
      blocks_disjoint [OF assms(4)])

lemma sample_handed:
  assumes "1 \<le> sint (max_threads en)"
  shows "handed (sample_events en f (S div scast (max_threads en)) k)
    = {0 ..< team_size en k * (unat S div nat (sint (max_threads en)))}"
proof -
  let ?c = "unat S div nat (sint (max_threads en))"
  have "\<forall>i<team_size en k. range_bytes (chunk (S div scast (max_threads en)) i)
      = {i * ?c ..< (i + 1) * ?c}"
    using range_bytes_chunk [OF assms] team_size_le [OF assms, of k]
    by (meson less_le_trans)
  then have "(\<Union>i<team_size en k. range_bytes (chunk (S div scast (max_threads en)) i))
      = (\<Union>i<team_size en k. {i * ?c ..< (i + 1) * ?c})"
    by simp
  then show ?thesis
    by (simp only: handed_sample_events blocks_cover)
qed

lemma full_team_handed:
  assumes "1 \<le> sint (max_threads en)" and "S mod scast (max_threads en) = 0"
    and "team_size en k = nat (sint (max_threads en))"
  shows "handed (sample_events en f (S div scast (max_threads en)) k) = {0 ..< unat S}"
proof -
  let ?t = "nat (sint (max_threads en))"
  have "unat (S mod scast (max_threads en)) = 0" using assms(2) by simp
  then have "unat S mod ?t = 0"
    by (simp only: unat_mod unat_scast_T [OF assms(1)])
  then have "?t * (unat S div ?t) = unat S" by auto
  then show ?thesis
    by (simp only: sample_handed [OF assms(1)] assms(3))
qed

lemma short_team: "team short_team_env k = [0, 1]"
  by (simp add: team_def team_size_def short_team_env_def upt_rec)

lemma short_team_divides: "SIZE initial_world mod scast (max_threads short_team_env) = 0"
  by (simp add: short_team_env_def initial_world_def MAX_SIZE_def BYTES_PER_GB_def)

lemma short_team_chunk_size:
  "SIZE initial_world div scast (max_threads short_team_env) = 268435456"
  by (simp add: short_team_env_def initial_world_def MAX_SIZE_def BYTES_PER_GB_def)

lemma short_team_sample_events:
  "sample_events short_team_env f 268435456 k =
     Clock # replicate 5 (Call f 0 0 268435456)
       @ replicate 5 (Call f 1 268435456 268435456) @ [Clock]"
  by (simp add: sample_events_def short_team thread_calls_def chunk_def TIMES_def)

text \<open>
  C2, at an input where the code leaves a gap. \<^verbatim>\<open>omp_get_max_threads()\<close> is 4, the Active Size
  is the 1 GiB that \<^verbatim>\<open>main\<close> computes for 4 threads, and the runtime forms a team of two
  threads. The \<^verbatim>\<open>assert\<close> passes, the chunk size is a quarter of the Active Size, and the
  sample hands thread 0 the first quarter and thread 1 the second: the ranges are those
  of the claim and disjoint, but their union is the first half of \<open>[0, S)\<close>.
\<close>

theorem short_team_leaves_gap:
  "max_threads short_team_env = 4
   \<and> team short_team_env (ticks initial_world) = [0, 1]
   \<and> SIZE initial_world = omp_size (max_threads short_team_env)
   \<and> unat (SIZE initial_world) = 1073741824
   \<and> SIZE initial_world mod scast (max_threads short_team_env) = 0
   \<and> timeitp_sample short_team_env read_memory_loop (PInf, initial_world) =
       Inr (Fin 0.9,
         \<lparr>SIZE = MAX_SIZE, ticks = 2,
          trace = Clock # replicate 5 (Call read_memory_loop 0 0 268435456)
            @ replicate 5 (Call read_memory_loop 1 268435456 268435456) @ [Clock]\<rparr>)
   \<and> range_bytes (0, 268435456) = {0 ..< 268435456}
   \<and> range_bytes (268435456, 268435456) = {268435456 ..< 536870912}
   \<and> handed (Clock # replicate 5 (Call read_memory_loop 0 0 268435456)
         @ replicate 5 (Call read_memory_loop 1 268435456 268435456) @ [Clock])
       = {0 ..< 536870912}"
proof (intro conjI)
  show "max_threads short_team_env = 4" by (simp add: short_team_env_def)
  show "team short_team_env (ticks initial_world) = [0, 1]" by (rule short_team)
  show "SIZE initial_world = omp_size (max_threads short_team_env)"
    by (simp add: short_team_env_def initial_world_def omp_size_4)
  show "unat (SIZE initial_world) = 1073741824"
    by (simp add: initial_world_def unat_MAX_SIZE)
  show "SIZE initial_world mod scast (max_threads short_team_env) = 0"
    by (rule short_team_divides)
  have T: "1 \<le> sint (max_threads short_team_env)" by (simp add: short_team_env_def)
  have e: "elapsed short_team_env (ticks initial_world) 0 = Fin 0.9"
    by (simp add: elapsed_def short_team_env_def example_clock_def initial_world_def)
  show "timeitp_sample short_team_env read_memory_loop (PInf, initial_world) =
       Inr (Fin 0.9,
         \<lparr>SIZE = MAX_SIZE, ticks = 2,
          trace = Clock # replicate 5 (Call read_memory_loop 0 0 268435456)
            @ replicate 5 (Call read_memory_loop 1 268435456 268435456) @ [Clock]\<rparr>)"
    by (simp only: timeitp_sample_eq [OF T short_team_divides] short_team_chunk_size
        short_team_sample_events e keep_min_PInf)
      (simp add: initial_world_def)
  show "range_bytes (0, 268435456) = {0 ..< 268435456}"
    by (simp add: range_bytes_def)
  show "range_bytes (268435456, 268435456) = {268435456 ..< 536870912}"
    by (simp add: range_bytes_def)
  have "handed (sample_events short_team_env read_memory_loop
      (SIZE initial_world div scast (max_threads short_team_env)) 0)
    = {0 ..< team_size short_team_env 0
         * (unat (SIZE initial_world) div nat (sint (max_threads short_team_env)))}"
    by (rule sample_handed [OF T])
  then show "handed (Clock # replicate 5 (Call read_memory_loop 0 0 268435456)
         @ replicate 5 (Call read_memory_loop 1 268435456 268435456) @ [Clock])
       = {0 ..< 536870912}"
    by (simp only: short_team_chunk_size short_team_sample_events)
      (simp add: team_size_def short_team_env_def initial_world_def unat_MAX_SIZE)
qed

section \<open>The bytes reported by the two samplers\<close>

lemma bytes_moved_append: "bytes_moved (E @ F) = bytes_moved E + bytes_moved F"
  by (simp add: bytes_moved_def)

lemma bytes_moved_replicate_Call:
  "bytes_moved (replicate n (Call f tid off len)) = n * unat len"
  by (induction n) (simp_all add: bytes_moved_def)

lemma bytes_moved_threads:
  "bytes_moved (concat (map (thread_calls f c) tids)) = length tids * (TIMES * unat c)"
  by (induction tids)
    (simp_all add: bytes_moved_append thread_calls_def chunk_def bytes_moved_replicate_Call,
      simp add: bytes_moved_def)

text \<open>
  What the two samplers do achieve: both report \<^verbatim>\<open>to_bw\<close> of \<open>SIZE * TIMES\<close> bytes and of the
  same reduction of the same clock differences, whatever the team; the invocations of one
  sample of \<^verbatim>\<open>timeit\<close> move \<open>SIZE * TIMES\<close> bytes, and those of one sample of \<^verbatim>\<open>timeitp\<close>
  move \<open>N * (SIZE div T) * TIMES\<close> bytes for a team of \<open>N\<close> threads, which is \<open>SIZE * TIMES\<close>
  for a team of \<open>T\<close> threads and less for a smaller team.
\<close>

lemma timeit_sample_bytes:
  "bytes_moved (Clock # replicate TIMES (Call f 0 0 S) @ [Clock]) = unat S * TIMES"
  by (simp add: bytes_moved_def sum_list_replicate mult.commute)

lemma timeitp_sample_bytes:
  assumes "1 \<le> sint (max_threads en)"
  shows "bytes_moved (sample_events en f (S div scast (max_threads en)) k)
    = team_size en k * (unat S div nat (sint (max_threads en))) * TIMES"
proof -
  have "bytes_moved (sample_events en f (S div scast (max_threads en)) k)
    = bytes_moved (concat (map (thread_calls f (S div scast (max_threads en))) (team en k)))"
    by (simp add: sample_events_def bytes_moved_def)
  also have "\<dots> = team_size en k * (TIMES * (unat S div nat (sint (max_threads en))))"
    by (simp only: bytes_moved_threads unat_chunk_size [OF assms]) (simp add: team_def)
  finally show ?thesis by (simp only: ac_simps)
qed

lemma full_team_bytes:
  assumes "1 \<le> sint (max_threads en)" and "S mod scast (max_threads en) = 0"
    and "team_size en k = nat (sint (max_threads en))"
  shows "bytes_moved (sample_events en f (S div scast (max_threads en)) k) = unat S * TIMES"
proof -
  let ?t = "nat (sint (max_threads en))"
  have "unat (S mod scast (max_threads en)) = 0" using assms(2) by simp
  then have "unat S mod ?t = 0"
    by (simp only: unat_mod unat_scast_T [OF assms(1)])
  then have "?t * (unat S div ?t) = unat S" by auto
  then show ?thesis
    by (simp only: timeitp_sample_bytes [OF assms(1)] assms(3))
qed

lemma same_report:
  assumes "1 \<le> sint (max_threads en)" and "SIZE w mod scast (max_threads en) = 0"
  shows "\<exists>bw E E'. timeitp en f w
        = Inr (w\<lparr>ticks := ticks w + 2 * SAMPLES, trace := trace w @ E @ [Printf f True bw]\<rparr>)
    \<and> timeit en f w
        = w\<lparr>ticks := ticks w + 2 * SAMPLES, trace := trace w @ E' @ [Printf f False bw]\<rparr>
    \<and> bw = to_bw (SIZE w * of_nat TIMES)
        (foldl (\<lambda>m t. keep_min t m) PInf (map (elapsed en (ticks w)) [0..<SAMPLES]))"
  using timeitp_eq [OF assms, of f] timeit_eq [of en f w] by blast

lemma short_team_min:
  "foldl (\<lambda>m t. keep_min t m) PInf
     (map (elapsed short_team_env (ticks initial_world)) [0..<SAMPLES]) = Fin 0.5"
  by (simp add: SAMPLES_def upt_rec elapsed_def short_team_env_def example_clock_def
      initial_world_def keep_min_def)

text \<open>
  C6, at an input where the report overstates what was moved. \<^verbatim>\<open>omp_get_max_threads()\<close> is
  4, the Active Size is the 1 GiB that \<^verbatim>\<open>main\<close> computes for 4 threads, and the runtime
  forms teams of two threads. \<^verbatim>\<open>timeitp\<close> reports \<^verbatim>\<open>to_bw\<close> of \<open>SIZE * TIMES\<close>, 5 GiB, and of
  the minimum elapsed time, as \<^verbatim>\<open>timeit\<close> does; the invocations of one sample of \<^verbatim>\<open>timeit\<close>
  move 5 GiB, but those of one sample of \<^verbatim>\<open>timeitp\<close>, summed over the threads, move 2.5 GiB.
\<close>

theorem short_team_overstates_bytes:
  "timeitp short_team_env read_memory_loop initial_world =
     Inr \<lparr>SIZE = MAX_SIZE, ticks = 10,
       trace = concat (replicate 5 (Clock # replicate 5 (Call read_memory_loop 0 0 268435456)
             @ replicate 5 (Call read_memory_loop 1 268435456 268435456) @ [Clock]))
         @ [Printf read_memory_loop True (to_bw (5 * BYTES_PER_GB) (Fin 0.5))]\<rparr>
   \<and> timeit short_team_env read_memory_loop initial_world =
       \<lparr>SIZE = MAX_SIZE, ticks = 10,
        trace = concat (replicate 5 (Clock # replicate 5 (Call read_memory_loop 0 0 MAX_SIZE)
              @ [Clock]))
          @ [Printf read_memory_loop False (to_bw (5 * BYTES_PER_GB) (Fin 0.5))]\<rparr>
   \<and> unat (5 * BYTES_PER_GB) = 5368709120
   \<and> bytes_moved (Clock # replicate 5 (Call read_memory_loop 0 0 MAX_SIZE) @ [Clock])
       = 5368709120
   \<and> bytes_moved (Clock # replicate 5 (Call read_memory_loop 0 0 268435456)
         @ replicate 5 (Call read_memory_loop 1 268435456 268435456) @ [Clock])
       = 2684354560"
proof (intro conjI)
  have T: "1 \<le> sint (max_threads short_team_env)" by (simp add: short_team_env_def)
  have s: "MAX_SIZE * 5 = 5 * BYTES_PER_GB" by (simp add: MAX_SIZE_def)
  have "timeitp short_team_env read_memory_loop initial_world =
     Inr (initial_world\<lparr>ticks := ticks initial_world + 2 * SAMPLES,
       trace := trace initial_world
         @ concat (map (\<lambda>i. Clock # replicate 5 (Call read_memory_loop 0 0 268435456)
             @ replicate 5 (Call read_memory_loop 1 268435456 268435456) @ [Clock]) [0..<SAMPLES])
         @ [Printf read_memory_loop True (to_bw (SIZE initial_world * of_nat TIMES) (Fin 0.5))]\<rparr>)"
    by (simp only: timeitp_eq [OF T short_team_divides] short_team_chunk_size
        short_team_sample_events short_team_min)
  then show "timeitp short_team_env read_memory_loop initial_world =
     Inr \<lparr>SIZE = MAX_SIZE, ticks = 10,
       trace = concat (replicate 5 (Clock # replicate 5 (Call read_memory_loop 0 0 268435456)
             @ replicate 5 (Call read_memory_loop 1 268435456 268435456) @ [Clock]))
         @ [Printf read_memory_loop True (to_bw (5 * BYTES_PER_GB) (Fin 0.5))]\<rparr>"
    by (simp add: SAMPLES_def TIMES_def initial_world_def map_replicate_const s)
  have "timeit short_team_env read_memory_loop initial_world =
     initial_world\<lparr>ticks := ticks initial_world + 2 * SAMPLES,
       trace := trace initial_world
         @ concat (replicate SAMPLES
             (Clock # replicate TIMES (Call read_memory_loop 0 0 (SIZE initial_world)) @ [Clock]))
         @ [Printf read_memory_loop False (to_bw (SIZE initial_world * of_nat TIMES) (Fin 0.5))]\<rparr>"
    by (simp only: timeit_eq short_team_min)
  then show "timeit short_team_env read_memory_loop initial_world =
       \<lparr>SIZE = MAX_SIZE, ticks = 10,
        trace = concat (replicate 5 (Clock # replicate 5 (Call read_memory_loop 0 0 MAX_SIZE)
              @ [Clock]))
          @ [Printf read_memory_loop False (to_bw (5 * BYTES_PER_GB) (Fin 0.5))]\<rparr>"
    by (simp add: SAMPLES_def TIMES_def initial_world_def s)
  show "unat (5 * BYTES_PER_GB) = 5368709120"
    by (simp add: BYTES_PER_GB_def)
  have "bytes_moved (Clock # replicate TIMES (Call read_memory_loop 0 0 MAX_SIZE) @ [Clock])
      = unat MAX_SIZE * TIMES"
    by (rule timeit_sample_bytes)
  then show "bytes_moved (Clock # replicate 5 (Call read_memory_loop 0 0 MAX_SIZE) @ [Clock])
       = 5368709120"
    by (simp add: TIMES_def unat_MAX_SIZE)
  have "bytes_moved (sample_events short_team_env read_memory_loop
      (SIZE initial_world div scast (max_threads short_team_env)) 0)
    = team_size short_team_env 0
        * (unat (SIZE initial_world) div nat (sint (max_threads short_team_env))) * TIMES"
    by (rule timeitp_sample_bytes [OF T])
  then show "bytes_moved (Clock # replicate 5 (Call read_memory_loop 0 0 268435456)
         @ replicate 5 (Call read_memory_loop 1 268435456 268435456) @ [Clock])
       = 2684354560"
    by (simp only: short_team_chunk_size short_team_sample_events)
      (simp add: team_size_def short_team_env_def initial_world_def unat_MAX_SIZE TIMES_def)
qed

end
